theory Spec2Isabelle
  imports Main "HOL-Library.Sublist"
begin

section \<open>Strings and the prefix utility (CapabilityRegistry.ts, ConfigLoader.ts)\<close>

text \<open>
  A JavaScript string is modelled as a list of characters. \<open>String.prototype.indexOf\<close>
  returns the index of the first occurrence of its argument, or \<open>-1\<close>; the model returns
  \<open>None\<close> for \<open>-1\<close>. \<open>substring(0, i)\<close> is \<open>take i\<close> and \<open>substring(i)\<close> is \<open>drop i\<close>.
\<close>

fun indexOf :: "string \<Rightarrow> string \<Rightarrow> nat option" where
  "indexOf [] pat = (if pat = [] then Some 0 else None)"
| "indexOf (c # cs) pat =
     (if prefix pat (c # cs) then Some 0 else map_option Suc (indexOf cs pat))"

definition includes_str :: "string \<Rightarrow> string \<Rightarrow> bool" where
  "includes_str s pat = (indexOf s pat \<noteq> None)"

definition SEPARATOR :: string where
  "SEPARATOR = ''___''"

definition addPrefix :: "string \<Rightarrow> string \<Rightarrow> string" where
  "addPrefix serverName name = serverName @ SEPARATOR @ name"

definition removePrefix :: "string \<Rightarrow> (string \<times> string) option" where
  "removePrefix prefixedName =
     (case indexOf prefixedName SEPARATOR of
        None \<Rightarrow> None
      | Some separatorIndex \<Rightarrow>
          (let serverName = take separatorIndex prefixedName;
               originalName = drop (separatorIndex + length SEPARATOR) prefixedName
           in if serverName = [] \<or> originalName = [] then None
              else Some (serverName, originalName)))"

text \<open>
  \<open>ConfigLoader.validateServerName\<close>: the three checks in the order of the source, each
  throwing its own error. The regular expression \<open>/^[a-zA-Z0-9_-]+$/\<close> accepts exactly the
  non-empty strings over the listed characters.
\<close>

datatype name_error = NotNonEmptyString | InvalidCharacters | TripleUnderscore

definition nameChar :: "char \<Rightarrow> bool" where
  "nameChar c = (c \<in> set ''abcdefghijklmnopqrstuvwxyzABCDEFGHIJKLMNOPQRSTUVWXYZ0123456789_-'')"

definition matchesNamePattern :: "string \<Rightarrow> bool" where
  "matchesNamePattern name = (name \<noteq> [] \<and> list_all nameChar name)"

definition validateServerName :: "string \<Rightarrow> name_error + unit" where
  "validateServerName name =
     (if name = [] then Inl NotNonEmptyString
      else if \<not> matchesNamePattern name then Inl InvalidCharacters
      else if includes_str name ''___'' then Inl TripleUnderscore
      else Inr ())"

section \<open>JavaScript collections\<close>

text \<open>
  A JavaScript \<open>Map\<close> iterates in insertion order: it is modelled as an association list.
  \<open>set\<close> overwrites the value of an existing key in place and appends a new key at the end;
  \<open>delete\<close> removes the key. A \<open>Set\<close> is the list of its elements in insertion order.
\<close>

definition map_has :: "'k \<Rightarrow> ('k \<times> 'v) list \<Rightarrow> bool" where
  "map_has k m = (k \<in> fst ` set m)"

definition map_get :: "'k \<Rightarrow> ('k \<times> 'v) list \<Rightarrow> 'v option" where
  "map_get k m = map_of m k"

fun map_set :: "'k \<Rightarrow> 'v \<Rightarrow> ('k \<times> 'v) list \<Rightarrow> ('k \<times> 'v) list" where
  "map_set k v [] = [(k, v)]"
| "map_set k v (e # m) = (if fst e = k then (k, v) # m else e # map_set k v m)"

definition map_delete :: "'k \<Rightarrow> ('k \<times> 'v) list \<Rightarrow> ('k \<times> 'v) list" where
  "map_delete k m = filter (\<lambda>e. fst e \<noteq> k) m"

definition set_add :: "'a \<Rightarrow> 'a list \<Rightarrow> 'a list" where
  "set_add x s = (if x \<in> set s then s else s @ [x])"

section \<open>Capability records (types.ts)\<close>

datatype json = JNull | JBool bool | JNum int | JStr string | JArr "json list"
  | JObj "(string \<times> json) list"

record MCPTool =
  name :: string
  title :: "string option"
  description :: string
  parameters :: json

record RegisteredTool = MCPTool +
  serverName :: string
  originalName :: string
  prefixedName :: string

record MCPResource =
  uri :: string
  name :: string
  description :: "string option"
  mimeType :: "string option"

record RegisteredResource = MCPResource +
  serverName :: string
  originalUri :: string
  prefixedUri :: string

record PromptArgument =
  name :: string
  description :: "string option"
  required :: "bool option"

record MCPPrompt =
  name :: string
  description :: "string option"
  arguments :: "PromptArgument list option"

record RegisteredPrompt = MCPPrompt +
  serverName :: string
  originalName :: string
  prefixedName :: string

text \<open>What the registries write to the console.\<close>

datatype console =
    ToolNameConflict string | RegisteredTools nat string
  | ResourceUriConflict string | RegisteredResources nat string
  | PromptNameConflict string | RegisteredPrompts nat string

section \<open>ToolRegistry (CapabilityRegistry.ts)\<close>

record ToolRegistry =
  tools :: "(string \<times> RegisteredTool) list"
  serverTools :: "(string \<times> string list) list"

definition clearServerTools :: "string \<Rightarrow> ToolRegistry \<Rightarrow> ToolRegistry" where
  "clearServerTools server r =
     (case map_get server (serverTools r) of
        None \<Rightarrow> r
      | Some toolNames \<Rightarrow>
          r\<lparr>tools := fold map_delete toolNames (tools r),
            serverTools := map_delete server (serverTools r)\<rparr>)"

definition registeredTool :: "string \<Rightarrow> MCPTool \<Rightarrow> RegisteredTool" where
  "registeredTool server tool =
     \<lparr>MCPTool.name = MCPTool.name tool, MCPTool.title = MCPTool.title tool,
      MCPTool.description = MCPTool.description tool,
      MCPTool.parameters = MCPTool.parameters tool,
      RegisteredTool.serverName = server,
      RegisteredTool.originalName = MCPTool.name tool,
      RegisteredTool.prefixedName = addPrefix server (MCPTool.name tool)\<rparr>"

text \<open>
  The \<open>for\<close> loop of \<open>registerTools\<close>, over the forward map, the set \<open>registeredNames\<close>
  and the console output. The \<open>continue\<close> of the conflict branch is the first recursive call.
\<close>

fun registerTools_loop ::
  "string \<Rightarrow> MCPTool list \<Rightarrow> (string \<times> RegisteredTool) list \<times> string list \<times> console list
   \<Rightarrow> (string \<times> RegisteredTool) list \<times> string list \<times> console list" where
  "registerTools_loop server [] st = st"
| "registerTools_loop server (tool # rest) (toolMap, registeredNames, out) =
     (let prefixed = addPrefix server (MCPTool.name tool) in
      if map_has prefixed toolMap
      then registerTools_loop server rest
             (toolMap, registeredNames, out @ [ToolNameConflict prefixed])
      else registerTools_loop server rest
             (map_set prefixed (registeredTool server tool) toolMap,
              set_add prefixed registeredNames, out))"

definition registerTools :: "string \<Rightarrow> MCPTool list \<Rightarrow> ToolRegistry \<Rightarrow> ToolRegistry \<times> console list" where
  "registerTools server ts r =
     (let r1 = clearServerTools server r;
          (toolMap, registeredNames, out) = registerTools_loop server ts (tools r1, [], [])
      in (\<lparr>tools = toolMap,
           serverTools = map_set server registeredNames (serverTools r1)\<rparr>,
          out @ [RegisteredTools (length registeredNames) server]))"

definition getTool :: "string \<Rightarrow> ToolRegistry \<Rightarrow> RegisteredTool option" where
  "getTool prefixed r = map_get prefixed (tools r)"

definition getAllTools :: "ToolRegistry \<Rightarrow> RegisteredTool list" where
  "getAllTools r = map snd (tools r)"

definition hasTool :: "string \<Rightarrow> ToolRegistry \<Rightarrow> bool" where
  "hasTool prefixed r = map_has prefixed (tools r)"

definition getServerToolCount :: "string \<Rightarrow> ToolRegistry \<Rightarrow> nat" where
  "getServerToolCount server r =
     (case map_get server (serverTools r) of None \<Rightarrow> 0 | Some toolNames \<Rightarrow> length toolNames)"


text \<open>
  Two readings used in the statements below: the names the reverse index holds for an
  upstream (what \<open>clearServerTools\<close> iterates over, empty when the upstream has no set),
  and the prefixed ids of the conflict warnings in a console output.
\<close>

definition indexedToolNames :: "string \<Rightarrow> ToolRegistry \<Rightarrow> string list" where
  "indexedToolNames server r =
     (case map_get server (serverTools r) of None \<Rightarrow> [] | Some toolNames \<Rightarrow> toolNames)"

definition toolConflicts :: "console list \<Rightarrow> string list" where
  "toolConflicts out = [p. ToolNameConflict p \<leftarrow> out]"

text \<open>
  The reverse index is sound when every name it holds for an upstream is the key of an
  entry whose \<open>serverName\<close> is that upstream.
\<close>

definition toolIndexSound :: "ToolRegistry \<Rightarrow> bool" where
  "toolIndexSound r \<longleftrightarrow>
     (\<forall>v. \<forall>p \<in> set (indexedToolNames v r).
        \<exists>t. getTool p r = Some t \<and> RegisteredTool.serverName t = v)"

section \<open>ResourceRegistry (CapabilityRegistry.ts)\<close>

record ResourceRegistry =
  resources :: "(string \<times> RegisteredResource) list"
  serverResources :: "(string \<times> string list) list"

definition clearServerResources :: "string \<Rightarrow> ResourceRegistry \<Rightarrow> ResourceRegistry" where
  "clearServerResources server r =
     (case map_get server (serverResources r) of
        None \<Rightarrow> r
      | Some resourceUris \<Rightarrow>
          r\<lparr>resources := fold map_delete resourceUris (resources r),
            serverResources := map_delete server (serverResources r)\<rparr>)"

definition registeredResource :: "string \<Rightarrow> MCPResource \<Rightarrow> RegisteredResource" where
  "registeredResource server resource =
     \<lparr>MCPResource.uri = MCPResource.uri resource, MCPResource.name = MCPResource.name resource,
      MCPResource.description = MCPResource.description resource,
      MCPResource.mimeType = MCPResource.mimeType resource,
      RegisteredResource.serverName = server,
      RegisteredResource.originalUri = MCPResource.uri resource,
      RegisteredResource.prefixedUri = addPrefix server (MCPResource.uri resource)\<rparr>"

text \<open>
  The \<open>for\<close> loop of \<open>registerResources\<close>, over the forward map, the set \<open>registeredUris\<close>
  and the console output. The \<open>continue\<close> of the conflict branch is the first recursive call.
\<close>

fun registerResources_loop ::
  "string \<Rightarrow> MCPResource list \<Rightarrow> (string \<times> RegisteredResource) list \<times> string list \<times> console list
   \<Rightarrow> (string \<times> RegisteredResource) list \<times> string list \<times> console list" where
  "registerResources_loop server [] st = st"
| "registerResources_loop server (resource # rest) (resourceMap, registeredUris, out) =
     (let prefixed = addPrefix server (MCPResource.uri resource) in
      if map_has prefixed resourceMap
      then registerResources_loop server rest
             (resourceMap, registeredUris, out @ [ResourceUriConflict prefixed])
      else registerResources_loop server rest
             (map_set prefixed (registeredResource server resource) resourceMap,
              set_add prefixed registeredUris, out))"

definition registerResources :: "string \<Rightarrow> MCPResource list \<Rightarrow> ResourceRegistry \<Rightarrow> ResourceRegistry \<times> console list" where
  "registerResources server ts r =
     (let r1 = clearServerResources server r;
          (resourceMap, registeredUris, out) = registerResources_loop server ts (resources r1, [], [])
      in (\<lparr>resources = resourceMap,
           serverResources = map_set server registeredUris (serverResources r1)\<rparr>,
          out @ [RegisteredResources (length registeredUris) server]))"

definition getResource :: "string \<Rightarrow> ResourceRegistry \<Rightarrow> RegisteredResource option" where
  "getResource prefixed r = map_get prefixed (resources r)"

definition getAllResources :: "ResourceRegistry \<Rightarrow> RegisteredResource list" where
  "getAllResources r = map snd (resources r)"

definition hasResource :: "string \<Rightarrow> ResourceRegistry \<Rightarrow> bool" where
  "hasResource prefixed r = map_has prefixed (resources r)"

definition getServerResourceCount :: "string \<Rightarrow> ResourceRegistry \<Rightarrow> nat" where
  "getServerResourceCount server r =
     (case map_get server (serverResources r) of None \<Rightarrow> 0 | Some resourceUris \<Rightarrow> length resourceUris)"


text \<open>
  Two readings used in the statements below: the URIs the reverse index holds for an
  upstream (what \<open>clearServerResources\<close> iterates over, empty when the upstream has no set),
  and the prefixed ids of the conflict warnings in a console output.
\<close>

definition indexedResourceUris :: "string \<Rightarrow> ResourceRegistry \<Rightarrow> string list" where
  "indexedResourceUris server r =
     (case map_get server (serverResources r) of None \<Rightarrow> [] | Some resourceUris \<Rightarrow> resourceUris)"

definition resourceConflicts :: "console list \<Rightarrow> string list" where
  "resourceConflicts out = [p. ResourceUriConflict p \<leftarrow> out]"

text \<open>
  The reverse index is sound when every name it holds for an upstream is the key of an
  entry whose \<open>serverName\<close> is that upstream.
\<close>

definition resourceIndexSound :: "ResourceRegistry \<Rightarrow> bool" where
  "resourceIndexSound r \<longleftrightarrow>
     (\<forall>v. \<forall>p \<in> set (indexedResourceUris v r).
        \<exists>t. getResource p r = Some t \<and> RegisteredResource.serverName t = v)"

section \<open>PromptRegistry (CapabilityRegistry.ts)\<close>

record PromptRegistry =
  prompts :: "(string \<times> RegisteredPrompt) list"
  serverPrompts :: "(string \<times> string list) list"

definition clearServerPrompts :: "string \<Rightarrow> PromptRegistry \<Rightarrow> PromptRegistry" where
  "clearServerPrompts server r =
     (case map_get server (serverPrompts r) of
        None \<Rightarrow> r
      | Some existingPrompts \<Rightarrow>
          r\<lparr>prompts := fold map_delete existingPrompts (prompts r),
            serverPrompts := map_delete server (serverPrompts r)\<rparr>)"

definition registeredPrompt :: "string \<Rightarrow> MCPPrompt \<Rightarrow> RegisteredPrompt" where
  "registeredPrompt server prompt =
     \<lparr>MCPPrompt.name = MCPPrompt.name prompt,
      MCPPrompt.description = MCPPrompt.description prompt,
      MCPPrompt.arguments = MCPPrompt.arguments prompt,
      RegisteredPrompt.serverName = server,
      RegisteredPrompt.originalName = MCPPrompt.name prompt,
      RegisteredPrompt.prefixedName = addPrefix server (MCPPrompt.name prompt)\<rparr>"

text \<open>
  The \<open>for\<close> loop of \<open>registerPrompts\<close>, over the forward map, the set \<open>registeredNames\<close>
  and the console output. The \<open>continue\<close> of the conflict branch is the first recursive call.
\<close>

fun registerPrompts_loop ::
  "string \<Rightarrow> MCPPrompt list \<Rightarrow> (string \<times> RegisteredPrompt) list \<times> string list \<times> console list
   \<Rightarrow> (string \<times> RegisteredPrompt) list \<times> string list \<times> console list" where
  "registerPrompts_loop server [] st = st"
| "registerPrompts_loop server (prompt # rest) (promptMap, registeredNames, out) =
     (let prefixed = addPrefix server (MCPPrompt.name prompt) in
      if map_has prefixed promptMap
      then registerPrompts_loop server rest
             (promptMap, registeredNames, out @ [PromptNameConflict prefixed])
      else registerPrompts_loop server rest
             (map_set prefixed (registeredPrompt server prompt) promptMap,
              set_add prefixed registeredNames, out))"

definition registerPrompts :: "string \<Rightarrow> MCPPrompt list \<Rightarrow> PromptRegistry \<Rightarrow> PromptRegistry \<times> console list" where
  "registerPrompts server ts r =
     (let r1 = clearServerPrompts server r;
          (promptMap, registeredNames, out) = registerPrompts_loop server ts (prompts r1, [], [])
      in (\<lparr>prompts = promptMap,
           serverPrompts = map_set server registeredNames (serverPrompts r1)\<rparr>,
          out @ [RegisteredPrompts (length registeredNames) server]))"

definition getPrompt :: "string \<Rightarrow> PromptRegistry \<Rightarrow> RegisteredPrompt option" where
  "getPrompt prefixed r = map_get prefixed (prompts r)"

definition getAllPrompts :: "PromptRegistry \<Rightarrow> RegisteredPrompt list" where
  "getAllPrompts r = map snd (prompts r)"

text \<open>\<open>PromptRegistry\<close> has no \<open>hasPrompt\<close> method; this names the test \<open>this.prompts.has\<close> of the loop.\<close>

definition hasPrompt :: "string \<Rightarrow> PromptRegistry \<Rightarrow> bool" where
  "hasPrompt prefixed r = map_has prefixed (prompts r)"

text \<open>
  Two readings used in the statements below: the names the reverse index holds for an
  upstream (what \<open>clearServerPrompts\<close> iterates over, empty when the upstream has no set),
  and the prefixed ids of the conflict warnings in a console output.
\<close>

definition indexedPromptNames :: "string \<Rightarrow> PromptRegistry \<Rightarrow> string list" where
  "indexedPromptNames server r =
     (case map_get server (serverPrompts r) of None \<Rightarrow> [] | Some existingPrompts \<Rightarrow> existingPrompts)"

definition promptConflicts :: "console list \<Rightarrow> string list" where
  "promptConflicts out = [p. PromptNameConflict p \<leftarrow> out]"

text \<open>
  The reverse index is sound when every name it holds for an upstream is the key of an
  entry whose \<open>serverName\<close> is that upstream.
\<close>

definition promptIndexSound :: "PromptRegistry \<Rightarrow> bool" where
  "promptIndexSound r \<longleftrightarrow>
     (\<forall>v. \<forall>p \<in> set (indexedPromptNames v r).
        \<exists>t. getPrompt p r = Some t \<and> RegisteredPrompt.serverName t = v)"

section \<open>The registration loop, once for the three registries\<close>

text \<open>
  The loops of \<open>registerTools\<close>, \<open>registerResources\<close> and \<open>registerPrompts\<close> differ in the
  key they take from an element, the record they store and the warning they print. The
  function below is their common shape; it is used in proofs only, through
  \<open>registerTools_loop_shape\<close> and its two siblings.
\<close>

fun insert_loop ::
  "('c \<Rightarrow> string) \<Rightarrow> ('c \<Rightarrow> 'r) \<Rightarrow> (string \<Rightarrow> console) \<Rightarrow> 'c list
   \<Rightarrow> (string \<times> 'r) list \<times> string list \<times> console list
   \<Rightarrow> (string \<times> 'r) list \<times> string list \<times> console list" where
  "insert_loop key mk warn [] st = st"
| "insert_loop key mk warn (c # cs) (m, names, out) =
     (if map_has (key c) m then insert_loop key mk warn cs (m, names, out @ [warn (key c)])
      else insert_loop key mk warn cs (map_set (key c) (mk c) m, set_add (key c) names, out))"

section \<open>JSON-RPC messages and conns (types.ts, BaseConnector.ts)\<close>

text \<open>
  \<open>undefined\<close> is \<open>None\<close> at every optional position. Reading a property of an object gives
  the value stored under the key or \<open>undefined\<close>; reading a property of a string, number,
  boolean or array gives \<open>undefined\<close> for the keys used here.
\<close>

fun js_prop :: "json \<Rightarrow> string \<Rightarrow> json option" where
  "js_prop (JObj kvs) k = map_of kvs k"
| "js_prop _ k = None"

fun has_key :: "string \<Rightarrow> json \<Rightarrow> bool" where
  "has_key k (JObj kvs) = (k \<in> fst ` set kvs)"
| "has_key k _ = False"


record rpc_error =
  code :: int
  message :: string

record MCPRequest =
  reqId :: json
  rpcMethod :: string
  params :: "json option"

record MCPResponse =
  respId :: json
  result :: "json option"
  error :: "rpc_error option"

text \<open>
  What a \<open>throw\<close> or a rejected promise carries: an \<open>Error\<close> with its message, an error
  of the SDK with a numeric \<open>code\<close> and a message (\<open>McpError\<close>), or another value, kept as
  the string \<open>String(value)\<close>. \<open>errorMessageOf\<close> is the expression
  \<open>error instanceof Error ? error.message : 'Unknown error'\<close> of the handlers and the
  connectors, \<open>errorCodeOf\<close> the expression \<open>(error as any)?.code || -32603\<close> of the
  connectors.
\<close>

datatype thrown = Error string | McpError int string | NotAnError string

fun errorMessageOf :: "thrown \<Rightarrow> string" where
  "errorMessageOf (Error m) = m"
| "errorMessageOf (McpError c m) = m"
| "errorMessageOf (NotAnError s) = ''Unknown error''"

fun errorCodeOf :: "thrown \<Rightarrow> int" where
  "errorCodeOf (McpError c m) = (if c = 0 then - 32603 else c)"
| "errorCodeOf e = - 32603"

datatype ServerStatus = disconnected | connecting | connected | error_status

text \<open>
  A connector, as the router and the manager see it: its name, its status, whether its SDK
  client has been created (\<open>this.client\<close>), and what \<open>client.request\<close> of the SDK does with
  a request: the promise resolves with the result of the upstream or rejects (an error
  reply of the upstream, a timeout, a closed transport). \<open>isConnected\<close> is
  \<open>BaseConnector.isConnected\<close>, which no transport overrides.
\<close>

record connector =
  connectorName :: string
  status :: ServerStatus
  hasClient :: bool
  clientRequest :: "MCPRequest \<Rightarrow> thrown + json"

definition isConnected :: "connector \<Rightarrow> bool" where
  "isConnected c = (status c = connected)"

text \<open>
  \<open>sendMessage\<close>, which \<open>StdioConnector\<close>, \<open>SseConnector\<close> and \<open>StreamableHttpConnector\<close>
  override with the same body (\<open>AutoConnector\<close> forwards to the one of these it has
  selected): the promise rejects when there is no client or the connector is not connected;
  otherwise it resolves, with the result of \<open>client.request\<close> or, when that call rejects,
  with an error response made of the code and the message of what was caught. The guard
  \<open>'error' in message\<close> is for response messages, which the handlers below never send.
\<close>

definition sendMessage :: "connector \<Rightarrow> MCPRequest \<Rightarrow> thrown + MCPResponse" where
  "sendMessage c msg =
     (if \<not> hasClient c \<or> \<not> isConnected c then
        Inl (Error (''Connector '' @ connectorName c @ '' is not connected''))
      else
        (case clientRequest c msg of
           Inr res \<Rightarrow> Inr \<lparr>respId = reqId msg, result = Some res, error = None\<rparr>
         | Inl e \<Rightarrow>
             Inr \<lparr>respId = reqId msg, result = None,
                  error = Some \<lparr>code = errorCodeOf e, message = errorMessageOf e\<rparr>\<rparr>))"

section \<open>CapabilityRegistry and the manager's connector table\<close>

record CapabilityRegistry =
  toolRegistry :: ToolRegistry
  resourceRegistry :: ResourceRegistry
  promptRegistry :: PromptRegistry

definition registry_getTool :: "string \<Rightarrow> CapabilityRegistry \<Rightarrow> RegisteredTool option" where
  "registry_getTool prefixed cr = getTool prefixed (toolRegistry cr)"

definition registry_getAllTools :: "CapabilityRegistry \<Rightarrow> RegisteredTool list" where
  "registry_getAllTools cr = getAllTools (toolRegistry cr)"

definition getConnector :: "string \<Rightarrow> (string \<times> connector) list \<Rightarrow> connector option" where
  "getConnector nm conns = map_get nm conns"

definition routeMessage ::
  "(string \<times> connector) list \<Rightarrow> string \<Rightarrow> MCPRequest \<Rightarrow> thrown + MCPResponse" where
  "routeMessage conns server msg =
     (case map_get server conns of
        None \<Rightarrow> Inl (Error (''Server '' @ server @ '' not found''))
      | Some c \<Rightarrow>
          if \<not> isConnected c then Inl (Error (''Server '' @ server @ '' is not connected''))
          else sendMessage c msg)"

section \<open>RequestRouter\<close>

record RouteInfo =
  routeServerName :: string
  routeOriginalName :: string
  routeConnector :: connector

definition router_routeToolCall ::
  "CapabilityRegistry \<Rightarrow> (string \<times> connector) list \<Rightarrow> string \<Rightarrow> RouteInfo option" where
  "router_routeToolCall cr conns prefixed =
     (case removePrefix prefixed of
        None \<Rightarrow> None
      | Some (server, original) \<Rightarrow>
          (case registry_getTool prefixed cr of
             None \<Rightarrow> None
           | Some found \<Rightarrow>
               (case getConnector server conns of
                  None \<Rightarrow> None
                | Some c \<Rightarrow>
                    if \<not> isConnected c then None
                    else Some \<lparr>routeServerName = server, routeOriginalName = original,
                               routeConnector = c\<rparr>)))"

text \<open>
  \<open>handleToolCall\<close>. Destructuring \<open>request.params\<close> throws a \<open>TypeError\<close> when the params are
  \<open>undefined\<close> or \<open>null\<close>, the only way the function throws; \<open>routeRequest\<close> catches it.
  \<open>arguments\<close> may be \<open>undefined\<close>, in which case the upstream params carry no such key.
\<close>

datatype handler_throw = ParamsTypeError

definition upstreamParams :: "string \<Rightarrow> string \<Rightarrow> json option \<Rightarrow> json" where
  "upstreamParams key original args =
     JObj ((key, JStr original) # (case args of None \<Rightarrow> [] | Some a \<Rightarrow> [(''arguments'', a)]))"

text \<open>The request built for the upstream, with the original (unprefixed) name.\<close>

definition upstreamCall :: "json \<Rightarrow> string \<Rightarrow> json option \<Rightarrow> MCPRequest" where
  "upstreamCall i original args =
     \<lparr>reqId = i, rpcMethod = ''tools/call'', params = Some (upstreamParams ''name'' original args)\<rparr>"

definition errorResponse :: "json \<Rightarrow> int \<Rightarrow> string \<Rightarrow> MCPResponse" where
  "errorResponse i c m = \<lparr>respId = i, result = None, error = Some \<lparr>code = c, message = m\<rparr>\<rparr>"

definition router_handleToolCall ::
  "CapabilityRegistry \<Rightarrow> (string \<times> connector) list \<Rightarrow> MCPRequest
   \<Rightarrow> handler_throw + MCPResponse" where
  "router_handleToolCall cr conns request =
     (case params request of
        None \<Rightarrow> Inl ParamsTypeError
      | Some JNull \<Rightarrow> Inl ParamsTypeError
      | Some ps \<Rightarrow>
          (case js_prop ps ''name'' of
             Some (JStr prefixed) \<Rightarrow>
               if prefixed = [] then
                 Inr (errorResponse (reqId request) (- 32602) ''Invalid params: tool name is required'')
               else
                 (case router_routeToolCall cr conns prefixed of
                    None \<Rightarrow>
                      Inr (errorResponse (reqId request) (- 32601)
                            (''Tool not found or server unavailable: '' @ prefixed))
                  | Some routeInfo \<Rightarrow>
                      (case sendMessage (routeConnector routeInfo)
                              (upstreamCall (reqId request) (routeOriginalName routeInfo)
                                (js_prop ps ''arguments'')) of
                         Inr response \<Rightarrow> Inr response
                       | Inl e \<Rightarrow>
                           Inr (errorResponse (reqId request) (- 32603)
                                 (''Upstream error: '' @ errorMessageOf e))))
           | _ \<Rightarrow>
               Inr (errorResponse (reqId request) (- 32602) ''Invalid params: tool name is required'')))"

section \<open>The SDK request handlers (McpHubServer, McpHub)\<close>

text \<open>
  The SDK validates a \<open>tools/call\<close> request against \<open>CallToolRequestSchema\<close> before it calls
  the handler: the params are an object with a string \<open>name\<close> and optional \<open>arguments\<close>. A
  handler returns a result or throws. \<open>JSON.stringify\<close> on a JSON value and the fresh request
  id (\<open>Math.random\<close>, \<open>Date.now\<close>) are parameters; \<open>JSON.stringify(undefined)\<close> is
  \<open>undefined\<close>, and a key whose value is \<open>undefined\<close> is not part of the object that is sent.
\<close>

record CallToolParams =
  name :: string
  arguments :: "json option"

definition server_routeToolCall ::
  "CapabilityRegistry \<Rightarrow> (string \<times> connector) list \<Rightarrow> string \<Rightarrow> RouteInfo option" where
  "server_routeToolCall cr conns prefixed =
     (case registry_getTool prefixed cr of
        None \<Rightarrow> None
      | Some tool \<Rightarrow>
          (case getConnector (RegisteredTool.serverName tool) conns of
             None \<Rightarrow> None
           | Some c \<Rightarrow>
               if \<not> isConnected c then None
               else Some \<lparr>routeServerName = RegisteredTool.serverName tool,
                          routeOriginalName = RegisteredTool.originalName tool,
                          routeConnector = c\<rparr>))"

definition textContent :: "string option \<Rightarrow> json" where
  "textContent txt =
     JObj [(''content'', JArr [JObj ((''type'', JStr ''text'')
        # (case txt of None \<Rightarrow> [] | Some t \<Rightarrow> [(''text'', JStr t)]))])]"

definition server_callTool ::
  "(json \<Rightarrow> string) \<Rightarrow> string \<Rightarrow> CapabilityRegistry
   \<Rightarrow> (string \<times> connector) list \<Rightarrow> CallToolParams \<Rightarrow> thrown + json" where
  "server_callTool stringify fresh cr conns ps =
     (let prefixed = CallToolParams.name ps in
      if prefixed = [] then Inl (Error ''Tool name is required'')
      else
        (case server_routeToolCall cr conns prefixed of
           None \<Rightarrow> Inl (Error (''Tool not found or server unavailable: '' @ prefixed))
         | Some routeInfo \<Rightarrow>
             (case sendMessage (routeConnector routeInfo)
                     (upstreamCall (JStr fresh) (routeOriginalName routeInfo)
                       (CallToolParams.arguments ps)) of
                Inr response \<Rightarrow>
                  (case result response of
                     Some (JObj kvs) \<Rightarrow>
                       if ''content'' \<in> fst ` set kvs then Inr (JObj kvs)
                       else Inr (textContent (Some (stringify (JObj kvs))))
                   | Some v \<Rightarrow> Inr (textContent (Some (stringify v)))
                   | None \<Rightarrow> Inr (textContent None))
              | Inl e \<Rightarrow>
                  Inr (JObj [(''isError'', JBool True),
                             (''content'', JArr [JObj [(''type'', JStr ''text''),
                                (''text'', JStr (''Upstream error: '' @ errorMessageOf e))]])]))))"

text \<open>\<open>McpHub\<close> (main.ts): the route is found by scanning \<open>getAllTools()\<close> for the prefixed name.\<close>

definition hub_routeToolCall ::
  "CapabilityRegistry \<Rightarrow> (string \<times> connector) list \<Rightarrow> string \<Rightarrow> (string \<times> string) option" where
  "hub_routeToolCall cr conns prefixed =
     (case find (\<lambda>t. RegisteredTool.prefixedName t = prefixed) (registry_getAllTools cr) of
        None \<Rightarrow> None
      | Some tool \<Rightarrow>
          (case getConnector (RegisteredTool.serverName tool) conns of
             None \<Rightarrow> None
           | Some c \<Rightarrow>
               if \<not> isConnected c then None
               else Some (RegisteredTool.serverName tool, RegisteredTool.originalName tool)))"

definition hub_callTool ::
  "int \<Rightarrow> CapabilityRegistry \<Rightarrow> (string \<times> connector) list \<Rightarrow> CallToolParams
   \<Rightarrow> thrown + json option" where
  "hub_callTool now cr conns ps =
     (let prefixed = CallToolParams.name ps in
      if prefixed = [] then Inl (Error ''Tool name is required'')
      else
        (case hub_routeToolCall cr conns prefixed of
           None \<Rightarrow> Inl (Error (''Tool not found or server unavailable: '' @ prefixed))
         | Some (server, original) \<Rightarrow>
             (case routeMessage conns server
                     (upstreamCall (JNum now) original (CallToolParams.arguments ps)) of
                Inl e \<Rightarrow> Inl e
              | Inr response \<Rightarrow>
                  (case error response of
                     Some err \<Rightarrow> Inl (Error (message err))
                   | None \<Rightarrow> Inr (result response)))))"

section \<open>The downstream session layer (McpHub.startStreamableHttp)\<close>

text \<open>
  An HTTP request to \<open>/mcp\<close>, as the handler reads it: the HTTP method and the
  \<open>mcp-session-id\<close> header. The body is parsed by the transport, later; \<open>bodyMethod\<close> is the
  JSON-RPC method it will find there, which the handler never reads.
\<close>

record HttpRequest =
  httpMethod :: string
  sessionHeader :: "string option"
  bodyMethod :: string

text \<open>
  An entry of \<open>activeConnections\<close>. The transport of a session is created with
  \<open>sessionIdGenerator: () => sessionId\<close>; \<open>boundSessionId\<close> is that id, and \<open>lastActivity\<close> the
  time stamp in milliseconds.
\<close>

record connection =
  boundSessionId :: string
  lastActivity :: int

datatype http_body = JsonRpcError int string | TransportReply string

record HttpResponse =
  statusCode :: nat
  responseHeaders :: "(string \<times> string) list"
  body :: http_body

text \<open>
  What the handler takes from outside: the string \<open>Math.random().toString(36).substring(2, 15)\<close>,
  the clock, whether \<open>sessionServer.connect(transport)\<close> resolves, and what
  \<open>transport.handleRequest\<close> of a session does with the request (it throws, or writes a
  status and a body).
\<close>

record http_env =
  randomId :: string
  clock :: int
  connectResolves :: bool
  handleRequest :: "connection \<Rightarrow> HttpRequest \<Rightarrow> thrown + nat \<times> string"

definition isInitializeRequest :: "HttpRequest \<Rightarrow> bool" where
  "isInitializeRequest req =
     (httpMethod req = ''POST'' \<and> (sessionHeader req = None \<or> sessionHeader req = Some []))"

definition internalServerError :: "(string \<times> string) list \<Rightarrow> HttpResponse" where
  "internalServerError hs =
     \<lparr>statusCode = 500, responseHeaders = hs, body = JsonRpcError (- 32603) ''Internal server error''\<rparr>"

text \<open>
  The part of the handler after the \<open>if (isNewSession)\<close> block: look the session up,
  answer \<open>Invalid session ID\<close> when it is not there, otherwise stamp it and pass the request to
  its transport. \<open>hs\<close> are the response headers set so far.
\<close>

definition dispatch ::
  "http_env \<Rightarrow> (string \<times> connection) list \<Rightarrow> string \<Rightarrow> (string \<times> string) list \<Rightarrow> HttpRequest
   \<Rightarrow> (string \<times> connection) list \<times> HttpResponse" where
  "dispatch env activeConnections sessionId hs req =
     (case map_get sessionId activeConnections of
        None \<Rightarrow>
          (activeConnections,
           \<lparr>statusCode = 400, responseHeaders = hs,
            body = JsonRpcError (- 32602) (''Invalid session ID: '' @ sessionId)\<rparr>)
      | Some conn \<Rightarrow>
          (let stamped = map_set sessionId (conn\<lparr>lastActivity := clock env\<rparr>) activeConnections in
           case handleRequest env (conn\<lparr>lastActivity := clock env\<rparr>) req of
             Inl e \<Rightarrow> (stamped, internalServerError hs)
           | Inr (st, reply) \<Rightarrow>
               (stamped, \<lparr>statusCode = st, responseHeaders = hs, body = TransportReply reply\<rparr>)))"

text \<open>
  The \<open>if (isNewSession)\<close> block: a new id, a new server and transport, the entry in
  \<open>activeConnections\<close> and the response header; a \<open>connect\<close> that throws ends in the
  \<open>catch\<close> of the handler.
\<close>

definition startSession ::
  "http_env \<Rightarrow> (string \<times> connection) list \<Rightarrow> HttpRequest
   \<Rightarrow> (string \<times> connection) list \<times> HttpResponse" where
  "startSession env activeConnections req =
     (let sessionId = randomId env in
      if \<not> connectResolves env then (activeConnections, internalServerError [])
      else dispatch env
             (map_set sessionId \<lparr>boundSessionId = sessionId, lastActivity = clock env\<rparr>
                activeConnections)
             sessionId [(''mcp-session-id'', sessionId)] req)"

text \<open>
  The handler of \<open>/mcp\<close>. \<open>isNewSession\<close> is \<open>!sessionId || this.isInitializeRequest(req)\<close>; a
  missing header and an empty one are the falsy values of \<open>sessionId\<close>.
\<close>

definition handleMcp ::
  "http_env \<Rightarrow> (string \<times> connection) list \<Rightarrow> HttpRequest
   \<Rightarrow> (string \<times> connection) list \<times> HttpResponse" where
  "handleMcp env activeConnections req =
     (case sessionHeader req of
        None \<Rightarrow> startSession env activeConnections req
      | Some sessionId \<Rightarrow>
          if sessionId = [] \<or> isInitializeRequest req then startSession env activeConnections req
          else dispatch env activeConnections sessionId [] req)"

section \<open>Capability discovery (BaseConnector.discoverCapabilities)\<close>





text \<open>A settled promise, as \<open>Promise.allSettled\<close> reports it.\<close>

datatype 'a settled = Fulfilled 'a | Rejected thrown




datatype discovery_log =
    FailedTools thrown | FailedResources thrown | FailedPrompts thrown
  | Discovered nat nat nat

definition valueOr :: "'a list settled \<Rightarrow> 'a list" where
  "valueOr s = (case s of Fulfilled v \<Rightarrow> v | Rejected reason \<Rightarrow> [])"

definition warningOf :: "(thrown \<Rightarrow> discovery_log) \<Rightarrow> 'a settled \<Rightarrow> discovery_log list" where
  "warningOf w s = (case s of Fulfilled v \<Rightarrow> [] | Rejected reason \<Rightarrow> [w reason])"

text \<open>
  What \<open>discoverCapabilities\<close> makes of the three settled promises: the object
  \<open>{tools, resources, prompts}\<close>, here a triple, and the console output.
\<close>

definition collectSettled ::
  "MCPTool list settled \<Rightarrow> MCPResource list settled \<Rightarrow> MCPPrompt list settled
   \<Rightarrow> (MCPTool list \<times> MCPResource list \<times> MCPPrompt list) \<times> discovery_log list" where
  "collectSettled ts rs ps =
     (let discoveredTools = valueOr ts;
          discoveredResources = valueOr rs;
          discoveredPrompts = valueOr ps
      in ((discoveredTools, discoveredResources, discoveredPrompts),
          warningOf FailedTools ts @ warningOf FailedResources rs @ warningOf FailedPrompts ps
          @ [Discovered (length discoveredTools) (length discoveredResources)
               (length discoveredPrompts)]))"


section \<open>UpstreamManager: connections and reconnect timers\<close>

record ServerConnection =
  status :: ServerStatus
  lastError :: "string option"

datatype manager_log =
    ScheduledReconnection string | SkippedReconnection string
  | ConnectCalled string | ReconnectionFailed string thrown

text \<open>
  The manager's three maps, the timers that \<open>setTimeout\<close> has armed and that have neither
  fired nor been cleared (the handle, and the upstream name the callback closes over), the
  next handle, and a log of what happened. The capability registry is left out here.
\<close>

record manager =
  connectors :: "(string \<times> connector) list"
  connections :: "(string \<times> ServerConnection) list"
  reconnectTimeouts :: "(string \<times> nat) list"
  timers :: "(nat \<times> string) list"
  nextTimer :: nat
  managerLog :: "manager_log list"

definition updateConnectionStatus ::
  "string \<Rightarrow> ServerStatus \<Rightarrow> string option \<Rightarrow> manager \<Rightarrow> manager" where
  "updateConnectionStatus nm st err m =
     (case map_get nm (connections m) of
        None \<Rightarrow> m
      | Some conn \<Rightarrow>
          m\<lparr>connections :=
              map_set nm (conn\<lparr>ServerConnection.status := st, lastError := err\<rparr>) (connections m)\<rparr>)"

definition setConnectorStatus :: "string \<Rightarrow> ServerStatus \<Rightarrow> manager \<Rightarrow> manager" where
  "setConnectorStatus nm st m =
     (case map_get nm (connectors m) of
        None \<Rightarrow> m
      | Some c \<Rightarrow> m\<lparr>connectors := map_set nm (c\<lparr>connector.status := st\<rparr>) (connectors m)\<rparr>)"

definition clearTimeout :: "nat \<Rightarrow> manager \<Rightarrow> manager" where
  "clearTimeout h m = m\<lparr>timers := filter (\<lambda>t. fst t \<noteq> h) (timers m)\<rparr>"

text \<open>\<open>scheduleReconnection\<close>: nothing when a timer is recorded for the name; otherwise
  \<open>setTimeout\<close> arms a timer and its handle is recorded.\<close>

definition scheduleReconnection :: "string \<Rightarrow> manager \<Rightarrow> manager" where
  "scheduleReconnection nm m =
     (if map_has nm (reconnectTimeouts m) then m
      else m\<lparr>timers := timers m @ [(nextTimer m, nm)],
             reconnectTimeouts := map_set nm (nextTimer m) (reconnectTimeouts m),
             nextTimer := Suc (nextTimer m),
             managerLog := managerLog m @ [ScheduledReconnection nm]\<rparr>)"

text \<open>
  \<open>connectServer\<close> up to its \<open>await connector.connect()\<close>: it throws when the upstream is
  in neither table, returns when the connector is connected, and otherwise marks both
  records \<open>connecting\<close> and calls \<open>connect\<close>. What follows the \<open>await\<close> is \<open>connectFailed\<close> below,
  or the \<open>connected\<close> event.
\<close>

definition connectServer :: "string \<Rightarrow> manager \<Rightarrow> thrown + manager" where
  "connectServer nm m =
     (case map_get nm (connectors m) of
        None \<Rightarrow> Inl (Error (''Server '' @ nm @ '' not found''))
      | Some c \<Rightarrow>
          (case map_get nm (connections m) of
             None \<Rightarrow> Inl (Error (''Server '' @ nm @ '' not found''))
           | Some conn \<Rightarrow>
               if isConnected c then Inr m
               else Inr ((setConnectorStatus nm connecting
                            (updateConnectionStatus nm connecting None m))
                          \<lparr>managerLog := managerLog m @ [ConnectCalled nm]\<rparr>)))"

text \<open>The callback that \<open>scheduleReconnection\<close> hands to \<open>setTimeout\<close>.\<close>

definition reconnectCallback :: "string \<Rightarrow> manager \<Rightarrow> manager" where
  "reconnectCallback nm m =
     (let m1 = m\<lparr>reconnectTimeouts := map_delete nm (reconnectTimeouts m)\<rparr> in
      if \<not> map_has nm (connectors m1) \<or> \<not> map_has nm (connections m1)
      then m1\<lparr>managerLog := managerLog m1 @ [SkippedReconnection nm]\<rparr>
      else (case connectServer nm m1 of
              Inl e \<Rightarrow> m1\<lparr>managerLog := managerLog m1 @ [ReconnectionFailed nm e]\<rparr>
            | Inr m2 \<Rightarrow> m2))"

text \<open>The event loop fires an armed timer: the timer is gone and its callback runs.\<close>

definition timerFires :: "nat \<Rightarrow> manager \<Rightarrow> manager" where
  "timerFires h m =
     (case map_of (timers m) h of
        None \<Rightarrow> m
      | Some nm \<Rightarrow> reconnectCallback nm (clearTimeout h m))"

text \<open>
  The handlers of \<open>setupConnectorHandlers\<close> for the \<open>disconnected\<close> and \<open>error\<close> events, and
  the \<open>catch\<close> block of \<open>connectServer\<close>, which runs when \<open>connect\<close> has rejected.
\<close>

definition onDisconnected :: "string \<Rightarrow> manager \<Rightarrow> manager" where
  "onDisconnected nm m = scheduleReconnection nm (updateConnectionStatus nm disconnected None m)"

definition onError :: "string \<Rightarrow> string \<Rightarrow> manager \<Rightarrow> manager" where
  "onError nm msg m = scheduleReconnection nm (updateConnectionStatus nm error_status (Some msg) m)"

definition connectFailed :: "string \<Rightarrow> string \<Rightarrow> manager \<Rightarrow> manager" where
  "connectFailed nm msg m =
     scheduleReconnection nm (updateConnectionStatus nm error_status (Some msg) m)"

text \<open>
  Cancelling the timer of an upstream, as \<open>removeServer\<close> and \<open>disconnectServer\<close> do; a
  \<open>Timeout\<close> object is always truthy.
\<close>

definition cancelReconnection :: "string \<Rightarrow> manager \<Rightarrow> manager" where
  "cancelReconnection nm m =
     (case map_get nm (reconnectTimeouts m) of
        None \<Rightarrow> m
      | Some h \<Rightarrow> (clearTimeout h m)\<lparr>reconnectTimeouts := map_delete nm (reconnectTimeouts m)\<rparr>)"

text \<open>
  \<open>connector.disconnect()\<close>, seen from the manager: when closing the transport fails the
  call throws; otherwise the connector becomes \<open>disconnected\<close> and, if it was not already,
  emits the \<open>disconnected\<close> event, whose handler runs before \<open>disconnect\<close> returns.
\<close>

definition disconnectConnector :: "bool \<Rightarrow> string \<Rightarrow> connector \<Rightarrow> manager \<Rightarrow> thrown + manager" where
  "disconnectConnector closes nm c m =
     (if \<not> closes then Inl (Error ''transport close failed'')
      else if connector.status c = disconnected then Inr m
      else Inr (onDisconnected nm (setConnectorStatus nm disconnected m)))"

definition removeServer :: "bool \<Rightarrow> string \<Rightarrow> manager \<Rightarrow> manager \<times> thrown option" where
  "removeServer closes nm m =
     (case map_get nm (connectors m) of
        None \<Rightarrow> (m, None)
      | Some c \<Rightarrow>
          (let m1 = cancelReconnection nm m in
           case disconnectConnector closes nm c m1 of
             Inl e \<Rightarrow> (m1, Some e)
           | Inr m2 \<Rightarrow>
               (m2\<lparr>connectors := map_delete nm (connectors m2),
                   connections := map_delete nm (connections m2)\<rparr>, None)))"

definition disconnectServer :: "bool \<Rightarrow> string \<Rightarrow> manager \<Rightarrow> manager \<times> thrown option" where
  "disconnectServer closes nm m =
     (case map_get nm (connectors m) of
        None \<Rightarrow> (m, Some (Error (''Server '' @ nm @ '' not found'')))
      | Some c \<Rightarrow>
          (let m1 = cancelReconnection nm m in
           case disconnectConnector closes nm c m1 of
             Inl e \<Rightarrow> (m1, Some e)
           | Inr m2 \<Rightarrow> (m2, None)))"

text \<open>\<open>addServer\<close>, up to its call of \<open>connectServer\<close>: the two records are stored.\<close>

definition addServer :: "string \<Rightarrow> connector \<Rightarrow> manager \<Rightarrow> thrown + manager" where
  "addServer nm c m =
     (if map_has nm (connectors m) then Inl (Error (''Server '' @ nm @ '' is already configured''))
      else Inr (m\<lparr>connectors := map_set nm c (connectors m),
                  connections := map_set nm \<lparr>ServerConnection.status = disconnected,
                                              lastError = None\<rparr> (connections m)\<rparr>))"

definition newManager :: manager where
  "newManager = \<lparr>connectors = [], connections = [], reconnectTimeouts = [], timers = [],
     nextTimer = 0, managerLog = []\<rparr>"

text \<open>
  The states the manager can be in: from the empty manager, by the operations above in
  any order and for any upstream, which covers every interleaving of the asynchronous
  code. (\<open>shutdown\<close> clears every timer and then disconnects every upstream.)
\<close>

definition clearAllTimers :: "manager \<Rightarrow> manager" where
  "clearAllTimers m =
     (fold (\<lambda>e. clearTimeout (snd e)) (reconnectTimeouts m) m)\<lparr>reconnectTimeouts := []\<rparr>"

inductive reachable :: "manager \<Rightarrow> bool" where
  start: "reachable newManager"
| added: "reachable m \<Longrightarrow> addServer nm c m = Inr m' \<Longrightarrow> reachable m'"
| removed: "reachable m \<Longrightarrow> reachable (fst (removeServer closes nm m))"
| disconnect_called: "reachable m \<Longrightarrow> reachable (fst (disconnectServer closes nm m))"
| disconnected_event: "reachable m \<Longrightarrow> reachable (onDisconnected nm m)"
| error_event: "reachable m \<Longrightarrow> reachable (onError nm msg m)"
| connect_called: "reachable m \<Longrightarrow> connectServer nm m = Inr m' \<Longrightarrow> reachable m'"
| connect_failed: "reachable m \<Longrightarrow> reachable (connectFailed nm msg m)"
| connect_succeeded: "reachable m
    \<Longrightarrow> reachable (updateConnectionStatus nm connected None (setConnectorStatus nm connected m))"
| timer_fired: "reachable m \<Longrightarrow> reachable (timerFires h m)"
| timers_cleared: "reachable m \<Longrightarrow> reachable (clearAllTimers m)"

definition pendingReconnects :: "string \<Rightarrow> manager \<Rightarrow> nat list" where
  "pendingReconnects nm m = map fst (filter (\<lambda>t. snd t = nm) (timers m))"

text \<open>
  The invariant behind the single timer: the armed timers are exactly the recorded
  handles, one per upstream name, and handles are not reused.
\<close>

definition timers_recorded :: "manager \<Rightarrow> bool" where
  "timers_recorded m \<longleftrightarrow>
     distinct (map fst (timers m)) \<and> distinct (map fst (reconnectTimeouts m))
     \<and> set (timers m) = (\<lambda>e. (snd e, fst e)) ` set (reconnectTimeouts m)
     \<and> (\<forall>t \<in> set (timers m). fst t < nextTimer m)"

section \<open>Example data\<close>

definition calc_tools :: "MCPTool list" where
  "calc_tools =
     [\<lparr>MCPTool.name = ''add'', MCPTool.title = None, MCPTool.description = ''first'',
       MCPTool.parameters = JNull\<rparr>,
      \<lparr>MCPTool.name = ''sub'', MCPTool.title = None, MCPTool.description = ''other'',
       MCPTool.parameters = JNull\<rparr>,
      \<lparr>MCPTool.name = ''add'', MCPTool.title = None, MCPTool.description = ''second'',
       MCPTool.parameters = JNull\<rparr>]"

definition no_tools :: ToolRegistry where
  "no_tools = \<lparr>tools = [], serverTools = []\<rparr>"

text \<open>
  Two upstreams with valid names, \<open>a\<close> and \<open>a_\<close>: the tool \<open>_x\<close> of the first and the tool
  \<open>x\<close> of the second have the same prefixed id \<open>a____x\<close>. The registries below hold what
  upstream \<open>a\<close> registered.
\<close>

definition tool_named :: "string \<Rightarrow> MCPTool" where
  "tool_named n = \<lparr>MCPTool.name = n, MCPTool.title = None, MCPTool.description = ''tool'',
     MCPTool.parameters = JNull\<rparr>"

definition resource_at :: "string \<Rightarrow> MCPResource" where
  "resource_at u = \<lparr>MCPResource.uri = u, MCPResource.name = ''resource'',
     MCPResource.description = None, MCPResource.mimeType = None\<rparr>"

definition prompt_named :: "string \<Rightarrow> MCPPrompt" where
  "prompt_named n = \<lparr>MCPPrompt.name = n, MCPPrompt.description = None,
     MCPPrompt.arguments = None\<rparr>"

definition tools_of_a :: ToolRegistry where
  "tools_of_a = \<lparr>tools = [(''a____x'', registeredTool ''a'' (tool_named ''_x''))],
     serverTools = [(''a'', [''a____x''])]\<rparr>"

definition resources_of_a :: ResourceRegistry where
  "resources_of_a = \<lparr>resources = [(''a____x'', registeredResource ''a'' (resource_at ''_x''))],
     serverResources = [(''a'', [''a____x''])]\<rparr>"

definition prompts_of_a :: PromptRegistry where
  "prompts_of_a = \<lparr>prompts = [(''a____x'', registeredPrompt ''a'' (prompt_named ''_x''))],
     serverPrompts = [(''a'', [''a____x''])]\<rparr>"

text \<open>
  A registry holding the tool of upstream \<open>a\<close>, and a registry holding the tool of upstream
  \<open>a_\<close>. Three connectors: one of \<open>a\<close> that is connected and whose upstream answers every
  request, one of \<open>a\<close> that is connected and whose upstream lets every request time out, and
  one of \<open>a_\<close> that is not connected.
\<close>

definition registry_of_a :: CapabilityRegistry where
  "registry_of_a = \<lparr>toolRegistry = tools_of_a, resourceRegistry = resources_of_a,
     promptRegistry = prompts_of_a\<rparr>"

definition tools_of_a_underscore :: ToolRegistry where
  "tools_of_a_underscore = \<lparr>tools = [(''a____x'', registeredTool ''a_'' (tool_named ''x''))],
     serverTools = [(''a_'', [''a____x''])]\<rparr>"

definition registry_of_a_underscore :: CapabilityRegistry where
  "registry_of_a_underscore = \<lparr>toolRegistry = tools_of_a_underscore,
     resourceRegistry = \<lparr>resources = [], serverResources = []\<rparr>,
     promptRegistry = \<lparr>prompts = [], serverPrompts = []\<rparr>\<rparr>"

definition done_result :: json where
  "done_result = JObj [(''content'', JArr [JObj [(''type'', JStr ''text''),
     (''text'', JStr ''done'')]])]"

definition answering :: connector where
  "answering = \<lparr>connectorName = ''a'', connector.status = connected, hasClient = True,
     clientRequest = (\<lambda>msg. Inr done_result)\<rparr>"

definition timing_out :: connector where
  "timing_out = \<lparr>connectorName = ''a'', connector.status = connected, hasClient = True,
     clientRequest = (\<lambda>msg. Inl (McpError (- 32001) ''Request timed out''))\<rparr>"

definition down :: connector where
  "down = \<lparr>connectorName = ''a_'', connector.status = disconnected, hasClient = False,
     clientRequest = (\<lambda>msg. Inl (Error ''Not connected''))\<rparr>"

definition call_request :: "string \<Rightarrow> MCPRequest" where
  "call_request n = \<lparr>reqId = JNum 7, rpcMethod = ''tools/call'',
     params = Some (JObj [(''name'', JStr n), (''arguments'', JObj [])])\<rparr>"

definition call_params :: "string \<Rightarrow> CallToolParams" where
  "call_params n = \<lparr>CallToolParams.name = n, CallToolParams.arguments = Some (JObj [])\<rparr>"

text \<open>
  A session table with the session \<open>abc\<close>, an environment whose next random id is \<open>k3j9\<close>,
  and three requests: \<open>tools/list\<close> without a session id, \<open>tools/list\<close> with an unknown
  session id, and \<open>initialize\<close> carrying the id of the existing session.
\<close>

definition one_session :: "(string \<times> connection) list" where
  "one_session = [(''abc'', \<lparr>boundSessionId = ''abc'', lastActivity = 1000\<rparr>)]"

definition some_env :: http_env where
  "some_env = \<lparr>randomId = ''k3j9'', clock = 5000, connectResolves = True,
     handleRequest = (\<lambda>c r. Inr (200, boundSessionId c))\<rparr>"



definition initialize_with_id :: HttpRequest where
  "initialize_with_id =
     \<lparr>httpMethod = ''POST'', sessionHeader = Some ''abc'', bodyMethod = ''initialize''\<rparr>"



text \<open>
  The manager after upstream \<open>a\<close> was added with a connected connector and then removed:
  the \<open>disconnected\<close> event of the removal has armed a timer for an upstream that is gone.
\<close>

definition with_a :: manager where
  "with_a = \<lparr>connectors = [(''a'', answering)],
     connections = [(''a'', \<lparr>ServerConnection.status = disconnected, lastError = None\<rparr>)],
     reconnectTimeouts = [], timers = [], nextTimer = 0, managerLog = []\<rparr>"

definition after_removal :: manager where
  "after_removal = \<lparr>connectors = [], connections = [], reconnectTimeouts = [(''a'', 0)],
     timers = [(0, ''a'')], nextTimer = 1, managerLog = [ScheduledReconnection ''a'']\<rparr>"

section \<open>Prefix round trip\<close>

lemma indexOf_sep_here: "indexOf (SEPARATOR @ n) SEPARATOR = Some 0"
  by (simp add: SEPARATOR_def)

lemma indexOf_after_name:
  "indexOf s SEPARATOR = None \<Longrightarrow> s = [] \<or> last s \<noteq> CHR ''_'' \<Longrightarrow>
   indexOf (s @ SEPARATOR @ n) SEPARATOR = Some (length s)"
proof (induction s)
  case Nil
  show ?case by (simp add: SEPARATOR_def)
next
  case (Cons c cs)
  from Cons.prems(1) have no_here: "\<not> prefix SEPARATOR (c # cs)" and rest: "indexOf cs SEPARATOR = None"
    by (auto split: if_splits)
  from Cons.prems(2) have tail: "cs = [] \<or> last cs \<noteq> CHR ''_''" and single: "cs = [] \<Longrightarrow> c \<noteq> CHR ''_''"
    by (auto split: if_splits)
  have "\<not> prefix SEPARATOR (c # cs @ SEPARATOR @ n)"
  proof (cases cs)
    case Nil
    with single show ?thesis by (simp add: SEPARATOR_def)
  next
    case (Cons d ds)
    note cs = this
    show ?thesis
    proof (cases ds)
      case Nil
      with cs tail show ?thesis by (simp add: SEPARATOR_def)
    next
      case (Cons e es)
      with cs no_here show ?thesis by (simp add: SEPARATOR_def)
    qed
  qed
  with Cons.IH [OF rest tail] show ?case by simp
qed

text \<open>
  For an upstream name accepted by \<open>validateServerName\<close> that does not end in an underscore,
  the separator that \<open>addPrefix\<close> inserts is the first \<open>___\<close> of the prefixed id, and
  \<open>removePrefix\<close> returns the two parts.
\<close>

lemma removePrefix_addPrefix_no_trailing_underscore:
  assumes "validateServerName s = Inr ()" and "last s \<noteq> CHR ''_''" and "n \<noteq> []"
  shows "removePrefix (addPrefix s n) = Some (s, n)"
proof -
  from assms(1) have ne: "s \<noteq> []" and nosep: "indexOf s SEPARATOR = None"
    by (auto simp: validateServerName_def includes_str_def SEPARATOR_def split: if_splits)
  from assms(2) have "s = [] \<or> last s \<noteq> CHR ''_''" by simp
  from indexOf_after_name [OF nosep this]
  have "indexOf (s @ SEPARATOR @ n) SEPARATOR = Some (length s)" .
  with ne assms(3) show ?thesis
    by (simp add: removePrefix_def addPrefix_def)
qed

lemma removePrefix_addPrefix_calc:
  "validateServerName ''calc'' = Inr ()
   \<and> removePrefix (addPrefix ''calc'' ''a___b'') = Some (''calc'', ''a___b'')"
proof -
  have v: "validateServerName ''calc'' = Inr ()"
    by (simp add: validateServerName_def matchesNamePattern_def nameChar_def includes_str_def)
  from removePrefix_addPrefix_no_trailing_underscore [OF v] v show ?thesis by simp
qed

text \<open>
  C1, evaluated where the code departs from it. \<open>validateServerName\<close> rejects a name that
  contains \<open>___\<close> and accepts the name \<open>a_\<close>. The tool \<open>x\<close> of upstream \<open>a_\<close> is registered
  under \<open>a____x\<close>, with \<open>a_\<close> and \<open>x\<close> in its record; the first \<open>___\<close> of \<open>a____x\<close> is at
  index 1, inside the name, and \<open>removePrefix\<close> returns the pair \<open>(a, _x)\<close> instead of
  \<open>(a_, x)\<close>.
\<close>

theorem removePrefix_addPrefix_trailing_underscore:
  "validateServerName ''a___b'' = Inl TripleUnderscore
   \<and> validateServerName ''a_'' = Inr ()
   \<and> addPrefix ''a_'' ''x'' = ''a____x''
   \<and> RegisteredTool.prefixedName (registeredTool ''a_'' (tool_named ''x'')) = ''a____x''
   \<and> RegisteredTool.serverName (registeredTool ''a_'' (tool_named ''x'')) = ''a_''
   \<and> RegisteredTool.originalName (registeredTool ''a_'' (tool_named ''x'')) = ''x''
   \<and> removePrefix (addPrefix ''a_'' ''x'') = Some (''a'', ''_x'')
   \<and> removePrefix (addPrefix ''a_'' ''x'') \<noteq> Some (''a_'', ''x'')"
  by (simp add: validateServerName_def matchesNamePattern_def nameChar_def includes_str_def
      removePrefix_def addPrefix_def SEPARATOR_def registeredTool_def tool_named_def)
section \<open>Facts about the collections\<close>

lemma map_has_iff: "map_has k m \<longleftrightarrow> map_of m k \<noteq> None"
  by (simp add: map_has_def map_of_eq_None_iff)

lemma map_of_map_set: "map_of (map_set k v m) = (map_of m)(k \<mapsto> v)"
  by (induction m) (auto simp: fun_eq_iff)

lemma map_set_new: "k \<notin> fst ` set m \<Longrightarrow> map_set k v m = m @ [(k, v)]"
  by (induction m) auto

lemma keys_map_set: "fst ` set (map_set k v m) = insert k (fst ` set m)"
  by (induction m) auto

lemma fold_map_delete: "fold map_delete ks m = filter (\<lambda>e. fst e \<notin> set ks) m"
proof (induction ks arbitrary: m)
  case Nil
  show ?case by simp
next
  case (Cons k ks)
  have "fold map_delete (k # ks) m = filter (\<lambda>e. fst e \<notin> set ks) (map_delete k m)"
    by (simp add: Cons.IH)
  moreover have "map_delete k m = filter (\<lambda>e. fst e \<noteq> k) m"
    by (simp add: map_delete_def)
  ultimately show ?case by (simp add: conj_commute)
qed

lemma map_of_filter_keys: "map_of (filter (\<lambda>e. fst e \<notin> A) m) p = (if p \<in> A then None else map_of m p)"
  by (induction m) auto

lemma map_of_fold_delete:
  "map_of (fold map_delete ks m) p = (if p \<in> set ks then None else map_of m p)"
  by (simp only: fold_map_delete map_of_filter_keys)

lemma map_of_map_delete: "map_of (map_delete k m) p = (if p = k then None else map_of m p)"
  using map_of_filter_keys [of "{k}" m p] by (simp add: map_delete_def)

lemma map_delete_absent: "k \<notin> fst ` set m \<Longrightarrow> map_delete k m = m"
  by (induction m) (auto simp: map_delete_def)

lemma fold_delete_inserted:
  assumes "fst ` set e \<subseteq> set ks" and "set ks \<inter> fst ` set m = {}"
  shows "fold map_delete ks (m @ e) = m"
proof -
  have "filter (\<lambda>x. fst x \<notin> set ks) e = []"
    using assms(1) by (auto simp: filter_empty_conv)
  moreover have "filter (\<lambda>x. fst x \<notin> set ks) m = m"
    using assms(2) by (auto simp: filter_id_conv)
  ultimately show ?thesis by (simp add: fold_map_delete)
qed

section \<open>Facts about the registration loop\<close>

lemma insert_loop_lookup:
  "map_of (fst (insert_loop key mk warn cs (m, names, out))) p =
     (if p \<in> fst ` set m then map_of m p else map_option mk (find (\<lambda>c. key c = p) cs))"
proof (induction cs arbitrary: m names out)
  case Nil
  show ?case by (simp add: map_of_eq_None_iff)
next
  case (Cons c cs)
  show ?case
  proof (cases "map_has (key c) m")
    case True
    then have "key c \<in> fst ` set m" by (simp add: map_has_def)
    with True show ?thesis by (auto simp: Cons.IH)
  next
    case False
    then have "key c \<notin> fst ` set m" by (simp add: map_has_def)
    with False show ?thesis
      by (auto simp: Cons.IH keys_map_set map_of_map_set)
  qed
qed

lemma insert_loop_shape:
  assumes "set names \<subseteq> fst ` set m"
  shows "\<exists>e ds. insert_loop key mk warn cs (m, names, out)
                  = (m @ e, names @ map fst e, out @ map warn ds)
          \<and> distinct (map fst e) \<and> fst ` set e \<inter> fst ` set m = {}
          \<and> fst ` set e = key ` set cs - fst ` set m
          \<and> length e + length ds = length cs
          \<and> (\<forall>p. count_list (map fst e) p + count_list ds p = count_list (map key cs) p)"
  using assms
proof (induction cs arbitrary: m names out)
  case Nil
  show ?case by simp
next
  case (Cons c cs)
  show ?case
  proof (cases "map_has (key c) m")
    case True
    then have inm: "key c \<in> fst ` set m" by (simp add: map_has_def)
    from Cons.IH [OF Cons.prems, of "out @ [warn (key c)]"]
    obtain e ds where
      r: "insert_loop key mk warn cs (m, names, out @ [warn (key c)])
            = (m @ e, names @ map fst e, (out @ [warn (key c)]) @ map warn ds)"
      and d: "distinct (map fst e)" and i: "fst ` set e \<inter> fst ` set m = {}"
      and k: "fst ` set e = key ` set cs - fst ` set m"
      and l: "length e + length ds = length cs"
      and c: "\<forall>p. count_list (map fst e) p + count_list ds p = count_list (map key cs) p"
      by blast
    have "insert_loop key mk warn (c # cs) (m, names, out)
            = (m @ e, names @ map fst e, out @ map warn (key c # ds))"
      using True r by simp
    moreover have "fst ` set e = key ` set (c # cs) - fst ` set m"
      using k inm by auto
    moreover have "length e + length (key c # ds) = length (c # cs)" using l by simp
    moreover have "\<forall>p. count_list (map fst e) p + count_list (key c # ds) p
                        = count_list (map key (c # cs)) p"
      using c by simp
    ultimately show ?thesis using d i by blast
  next
    case False
    then have notin: "key c \<notin> fst ` set m" by (simp add: map_has_def)
    with Cons.prems have fresh: "key c \<notin> set names" by auto
    let ?m = "m @ [(key c, mk c)]" and ?n = "names @ [key c]"
    have sub: "set ?n \<subseteq> fst ` set ?m" using Cons.prems by auto
    from Cons.IH [OF sub, of out]
    obtain e ds where
      r: "insert_loop key mk warn cs (?m, ?n, out) = (?m @ e, ?n @ map fst e, out @ map warn ds)"
      and d: "distinct (map fst e)" and i: "fst ` set e \<inter> fst ` set ?m = {}"
      and k: "fst ` set e = key ` set cs - fst ` set ?m"
      and l: "length e + length ds = length cs"
      and c: "\<forall>p. count_list (map fst e) p + count_list ds p = count_list (map key cs) p"
      by blast
    let ?e = "(key c, mk c) # e"
    have "insert_loop key mk warn (c # cs) (m, names, out)
            = (m @ ?e, names @ map fst ?e, out @ map warn ds)"
      using False r fresh notin by (simp add: map_set_new set_add_def)
    moreover have "distinct (map fst ?e)" using d i by auto
    moreover have "fst ` set ?e \<inter> fst ` set m = {}" using i notin by auto
    moreover have "fst ` set ?e = key ` set (c # cs) - fst ` set m" using k notin by auto
    moreover have "length ?e + length ds = length (c # cs)" using l by simp
    moreover have "\<forall>p. count_list (map fst ?e) p + count_list ds p = count_list (map key (c # cs)) p"
      using c by simp
    ultimately show ?thesis by blast
  qed
qed


lemma count_list_duplicate:
  assumes "i < j" and "j < length xs" and "xs ! i = xs ! j"
  shows "2 \<le> count_list xs (xs ! j)"
proof -
  have split: "xs = take j xs @ xs ! j # drop (Suc j) xs"
    using assms(2) by (simp add: id_take_nth_drop)
  have "take j xs ! i = xs ! i" using assms(1) by simp
  moreover have "i < length (take j xs)" using assms(1,2) by simp
  ultimately have "xs ! i \<in> set (take j xs)" by (metis nth_mem)
  then have "xs ! j \<in> set (take j xs)" using assms(3) by simp
  then have "1 \<le> count_list (take j xs) (xs ! j)"
    by (metis count_list_0_iff not_less_eq_eq le_zero_eq One_nat_def)
  moreover have "count_list xs (xs ! j)
      = count_list (take j xs) (xs ! j) + count_list (xs ! j # drop (Suc j) xs) (xs ! j)"
    by (subst split) (simp only: count_list_append)
  ultimately show ?thesis by simp
qed

lemma count_list_distinct_le: "distinct xs \<Longrightarrow> count_list xs x \<le> 1"
  by (induction xs) (auto simp: count_list_0_iff)

section \<open>ToolRegistry: what a registration leaves behind\<close>

lemma toolConflicts_output:
  "toolConflicts (map ToolNameConflict ds @ [RegisteredTools n u]) = ds"
  by (induction ds) (simp_all add: toolConflicts_def)

lemma registerTools_loop_shape:
  "registerTools_loop u T st
     = insert_loop (\<lambda>t. addPrefix u (MCPTool.name t)) (registeredTool u) ToolNameConflict T st"
  by (induction u T st rule: registerTools_loop.induct) (simp_all add: Let_def)

lemma tools_clearServerTools:
  "tools (clearServerTools u r) = filter (\<lambda>e. fst e \<notin> set (indexedToolNames u r)) (tools r)"
  by (simp add: clearServerTools_def indexedToolNames_def fold_map_delete split: option.split)

lemma serverTools_clearServerTools:
  "serverTools (clearServerTools u r) = map_delete u (serverTools r)"
  by (auto simp: clearServerTools_def map_get_def map_of_eq_None_iff map_delete_absent
      split: option.split)

lemma no_index_after_clearServerTools: "u \<notin> fst ` set (serverTools (clearServerTools u r))"
  by (auto simp: serverTools_clearServerTools map_delete_def)

lemma registerTools_shape:
  "\<exists>e ds. registerTools u T r
      = (\<lparr>tools = tools (clearServerTools u r) @ e,
          serverTools = serverTools (clearServerTools u r) @ [(u, map fst e)]\<rparr>,
         map ToolNameConflict ds @ [RegisteredTools (length e) u])
    \<and> distinct (map fst e)
    \<and> fst ` set e \<inter> fst ` set (tools (clearServerTools u r)) = {}
    \<and> fst ` set e = (\<lambda>t. addPrefix u (MCPTool.name t)) ` set T
                      - fst ` set (tools (clearServerTools u r))
    \<and> length e + length ds = length T
    \<and> (\<forall>p. count_list (map fst e) p + count_list ds p
              = count_list (map (\<lambda>t. addPrefix u (MCPTool.name t)) T) p)"
proof -
  let ?r1 = "clearServerTools u r"
  let ?key = "\<lambda>t. addPrefix u (MCPTool.name t)"
  have "set [] \<subseteq> fst ` set (tools ?r1)" by simp
  from insert_loop_shape [OF this, of ?key "registeredTool u" ToolNameConflict T "[]"]
  obtain e ds where
    r: "insert_loop ?key (registeredTool u) ToolNameConflict T (tools ?r1, [], [])
          = (tools ?r1 @ e, [] @ map fst e, [] @ map ToolNameConflict ds)"
    and rest: "distinct (map fst e)" "fst ` set e \<inter> fst ` set (tools ?r1) = {}"
      "fst ` set e = ?key ` set T - fst ` set (tools ?r1)"
      "length e + length ds = length T"
      "\<forall>p. count_list (map fst e) p + count_list ds p = count_list (map ?key T) p"
    by blast
  have "registerTools u T r
      = (\<lparr>tools = tools ?r1 @ e, serverTools = serverTools ?r1 @ [(u, map fst e)]\<rparr>,
         map ToolNameConflict ds @ [RegisteredTools (length e) u])"
    using r no_index_after_clearServerTools [of u r]
    by (simp add: registerTools_def registerTools_loop_shape map_set_new Let_def)
  with rest show ?thesis by blast
qed

lemma getTool_registerTools:
  "getTool p (fst (registerTools u T r)) =
     (if hasTool p r \<and> p \<notin> set (indexedToolNames u r) then getTool p r
      else map_option (registeredTool u) (find (\<lambda>t. addPrefix u (MCPTool.name t) = p) T))"
proof -
  let ?r1 = "clearServerTools u r"
  have keys: "p \<in> fst ` set (tools ?r1) \<longleftrightarrow> hasTool p r \<and> p \<notin> set (indexedToolNames u r)"
    by (auto simp: tools_clearServerTools hasTool_def map_has_def)
  have look: "p \<notin> set (indexedToolNames u r) \<Longrightarrow> map_of (tools ?r1) p = map_of (tools r) p"
    by (simp add: tools_clearServerTools map_of_filter_keys)
  have "getTool p (fst (registerTools u T r))
      = map_of (fst (registerTools_loop u T (tools ?r1, [], []))) p"
    by (simp add: registerTools_def getTool_def map_get_def Let_def case_prod_beta)
  also have "\<dots> = (if p \<in> fst ` set (tools ?r1) then map_of (tools ?r1) p
      else map_option (registeredTool u) (find (\<lambda>t. addPrefix u (MCPTool.name t) = p) T))"
    by (simp only: registerTools_loop_shape insert_loop_lookup)
  finally show ?thesis using keys look by (simp add: getTool_def map_get_def)
qed

lemma addPrefix_inject: "addPrefix u a = addPrefix u b \<longleftrightarrow> a = b"
  by (simp add: addPrefix_def)

lemma hasTool_clearServerTools:
  "hasTool p (clearServerTools u r) \<longleftrightarrow> hasTool p r \<and> p \<notin> set (indexedToolNames u r)"
  by (auto simp: tools_clearServerTools hasTool_def map_has_def)

lemma toolConflicts_preexisting:
  assumes "t \<in> set T" and "hasTool (addPrefix u (MCPTool.name t)) (clearServerTools u r)"
  shows "addPrefix u (MCPTool.name t) \<in> set (toolConflicts (snd (registerTools u T r)))"
proof -
  let ?r1 = "clearServerTools u r"
  let ?key = "\<lambda>t. addPrefix u (MCPTool.name t)"
  from registerTools_shape [of u T r] obtain e ds where
    r: "registerTools u T r
      = (\<lparr>tools = tools ?r1 @ e, serverTools = serverTools ?r1 @ [(u, map fst e)]\<rparr>,
         map ToolNameConflict ds @ [RegisteredTools (length e) u])"
    and i: "fst ` set e \<inter> fst ` set (tools ?r1) = {}"
    and c: "\<forall>p. count_list (map fst e) p + count_list ds p = count_list (map ?key T) p"
    by blast
  from assms(2) i have "?key t \<notin> set (map fst e)"
    by (auto simp: hasTool_def map_has_def)
  then have "count_list (map fst e) (?key t) = 0" by (simp add: count_list_0_iff)
  moreover from assms(1) have "count_list (map ?key T) (?key t) \<noteq> 0"
    by (simp add: count_list_0_iff)
  ultimately have "count_list ds (?key t) \<noteq> 0" using c by (metis add_0)
  then have "?key t \<in> set ds" by (simp add: count_list_0_iff)
  then show ?thesis by (simp add: r toolConflicts_output)
qed

lemma indexedToolNames_registerTools:
  "distinct (indexedToolNames u (fst (registerTools u T r)))
   \<and> set (indexedToolNames u (fst (registerTools u T r)))
       = (\<lambda>t. addPrefix u (MCPTool.name t)) ` set T
         - {p. hasTool p r \<and> p \<notin> set (indexedToolNames u r)}"
proof -
  let ?r1 = "clearServerTools u r"
  from registerTools_shape [of u T r] obtain e ds where
    r: "registerTools u T r
      = (\<lparr>tools = tools ?r1 @ e, serverTools = serverTools ?r1 @ [(u, map fst e)]\<rparr>,
         map ToolNameConflict ds @ [RegisteredTools (length e) u])"
    and d: "distinct (map fst e)"
    and k: "fst ` set e = (\<lambda>t. addPrefix u (MCPTool.name t)) ` set T - fst ` set (tools ?r1)"
    by blast
  have "map_of (serverTools ?r1) u = None"
    using no_index_after_clearServerTools [of u r] by (simp add: map_of_eq_None_iff)
  then have n: "indexedToolNames u (fst (registerTools u T r)) = map fst e"
    by (simp add: r indexedToolNames_def map_get_def map_add_def)
  have "fst ` set (tools ?r1) = {p. hasTool p r \<and> p \<notin> set (indexedToolNames u r)}"
    using hasTool_clearServerTools [of _ u r] by (auto simp: hasTool_def map_has_def)
  with k d n show ?thesis by simp
qed

lemma indexedToolNames_other_upstream:
  assumes "v \<noteq> u"
  shows "indexedToolNames v (fst (registerTools u T r)) = indexedToolNames v r"
proof -
  let ?r1 = "clearServerTools u r"
  from registerTools_shape [of u T r] obtain e ds where
    r: "registerTools u T r
      = (\<lparr>tools = tools ?r1 @ e, serverTools = serverTools ?r1 @ [(u, map fst e)]\<rparr>,
         map ToolNameConflict ds @ [RegisteredTools (length e) u])"
    by blast
  have "map_of (serverTools ?r1 @ [(u, map fst e)]) v = map_of (serverTools r) v"
    using assms
    by (auto simp: serverTools_clearServerTools map_add_def map_of_map_delete
        split: option.split)
  then show ?thesis by (simp add: r indexedToolNames_def map_get_def)
qed

lemma toolIndexSound_other_owner:
  assumes "toolIndexSound r" and "getTool p r = Some t" and "RegisteredTool.serverName t \<noteq> u"
  shows "hasTool p r \<and> p \<notin> set (indexedToolNames u r)"
proof -
  from assms(2) have "hasTool p r"
    by (simp add: hasTool_def getTool_def map_get_def map_has_iff)
  moreover have "p \<notin> set (indexedToolNames u r)"
  proof
    assume "p \<in> set (indexedToolNames u r)"
    with assms(1) obtain t' where "getTool p r = Some t'" "RegisteredTool.serverName t' = u"
      unfolding toolIndexSound_def by blast
    with assms(2,3) show False by simp
  qed
  ultimately show ?thesis by simp
qed

lemma toolIndexSound_registerTools:
  assumes "toolIndexSound r"
  shows "toolIndexSound (fst (registerTools u T r))"
  unfolding toolIndexSound_def
proof (intro allI ballI)
  fix v p
  assume p: "p \<in> set (indexedToolNames v (fst (registerTools u T r)))"
  show "\<exists>t. getTool p (fst (registerTools u T r)) = Some t \<and> RegisteredTool.serverName t = v"
  proof (cases "v = u")
    case True
    with p indexedToolNames_registerTools [of u T r]
    have inT: "p \<in> (\<lambda>t. addPrefix u (MCPTool.name t)) ` set T"
      and new: "\<not> (hasTool p r \<and> p \<notin> set (indexedToolNames u r))"
      by auto
    from inT have "find (\<lambda>t. addPrefix u (MCPTool.name t) = p) T \<noteq> None"
      by (auto simp: find_None_iff)
    then obtain t0 where "find (\<lambda>t. addPrefix u (MCPTool.name t) = p) T = Some t0" by auto
    moreover from new have "getTool p (fst (registerTools u T r))
        = map_option (registeredTool u) (find (\<lambda>t. addPrefix u (MCPTool.name t) = p) T)"
      by (subst getTool_registerTools) (rule if_not_P)
    ultimately have "getTool p (fst (registerTools u T r)) = Some (registeredTool u t0)"
      by simp
    with True show ?thesis by (simp add: registeredTool_def)
  next
    case False
    with p have "p \<in> set (indexedToolNames v r)"
      by (simp add: indexedToolNames_other_upstream)
    with assms obtain t where t: "getTool p r = Some t" "RegisteredTool.serverName t = v"
      unfolding toolIndexSound_def by blast
    from False t(2) have "RegisteredTool.serverName t \<noteq> u" by simp
    from toolIndexSound_other_owner [OF assms t(1) this]
    have "getTool p (fst (registerTools u T r)) = getTool p r"
      by (subst getTool_registerTools) (rule if_P)
    with t(1) have "getTool p (fst (registerTools u T r)) = Some t" by simp
    with t show ?thesis by simp
  qed
qed

lemma toolIndexSound_clearServerTools:
  assumes "toolIndexSound r"
  shows "toolIndexSound (clearServerTools u r)"
  unfolding toolIndexSound_def
proof (intro allI ballI)
  fix v p
  assume p: "p \<in> set (indexedToolNames v (clearServerTools u r))"
  have idx: "indexedToolNames v (clearServerTools u r)
      = (if v = u then [] else indexedToolNames v r)"
    by (simp add: indexedToolNames_def map_get_def serverTools_clearServerTools
        map_of_map_delete)
  with p have vu: "v \<noteq> u" and pv: "p \<in> set (indexedToolNames v r)"
    by (auto split: if_splits)
  with assms obtain t where t: "getTool p r = Some t" "RegisteredTool.serverName t = v"
    unfolding toolIndexSound_def by blast
  from vu t(2) have "RegisteredTool.serverName t \<noteq> u" by simp
  from toolIndexSound_other_owner [OF assms t(1) this]
  have "p \<notin> set (indexedToolNames u r)" by simp
  then have "getTool p (clearServerTools u r) = getTool p r"
    by (simp add: getTool_def map_get_def tools_clearServerTools map_of_filter_keys)
  with t show "\<exists>t. getTool p (clearServerTools u r) = Some t \<and> RegisteredTool.serverName t = v"
    by simp
qed

section \<open>ResourceRegistry: what a registration leaves behind\<close>

lemma resourceConflicts_output:
  "resourceConflicts (map ResourceUriConflict ds @ [RegisteredResources n u]) = ds"
  by (induction ds) (simp_all add: resourceConflicts_def)

lemma registerResources_loop_shape:
  "registerResources_loop u T st
     = insert_loop (\<lambda>t. addPrefix u (MCPResource.uri t)) (registeredResource u) ResourceUriConflict T st"
  by (induction u T st rule: registerResources_loop.induct) (simp_all add: Let_def)

lemma resources_clearServerResources:
  "resources (clearServerResources u r) = filter (\<lambda>e. fst e \<notin> set (indexedResourceUris u r)) (resources r)"
  by (simp add: clearServerResources_def indexedResourceUris_def fold_map_delete split: option.split)

lemma serverResources_clearServerResources:
  "serverResources (clearServerResources u r) = map_delete u (serverResources r)"
  by (auto simp: clearServerResources_def map_get_def map_of_eq_None_iff map_delete_absent
      split: option.split)

lemma no_index_after_clearServerResources: "u \<notin> fst ` set (serverResources (clearServerResources u r))"
  by (auto simp: serverResources_clearServerResources map_delete_def)

lemma registerResources_shape:
  "\<exists>e ds. registerResources u T r
      = (\<lparr>resources = resources (clearServerResources u r) @ e,
          serverResources = serverResources (clearServerResources u r) @ [(u, map fst e)]\<rparr>,
         map ResourceUriConflict ds @ [RegisteredResources (length e) u])
    \<and> distinct (map fst e)
    \<and> fst ` set e \<inter> fst ` set (resources (clearServerResources u r)) = {}
    \<and> fst ` set e = (\<lambda>t. addPrefix u (MCPResource.uri t)) ` set T
                      - fst ` set (resources (clearServerResources u r))
    \<and> length e + length ds = length T
    \<and> (\<forall>p. count_list (map fst e) p + count_list ds p
              = count_list (map (\<lambda>t. addPrefix u (MCPResource.uri t)) T) p)"
proof -
  let ?r1 = "clearServerResources u r"
  let ?key = "\<lambda>t. addPrefix u (MCPResource.uri t)"
  have "set [] \<subseteq> fst ` set (resources ?r1)" by simp
  from insert_loop_shape [OF this, of ?key "registeredResource u" ResourceUriConflict T "[]"]
  obtain e ds where
    r: "insert_loop ?key (registeredResource u) ResourceUriConflict T (resources ?r1, [], [])
          = (resources ?r1 @ e, [] @ map fst e, [] @ map ResourceUriConflict ds)"
    and rest: "distinct (map fst e)" "fst ` set e \<inter> fst ` set (resources ?r1) = {}"
      "fst ` set e = ?key ` set T - fst ` set (resources ?r1)"
      "length e + length ds = length T"
      "\<forall>p. count_list (map fst e) p + count_list ds p = count_list (map ?key T) p"
    by blast
  have "registerResources u T r
      = (\<lparr>resources = resources ?r1 @ e, serverResources = serverResources ?r1 @ [(u, map fst e)]\<rparr>,
         map ResourceUriConflict ds @ [RegisteredResources (length e) u])"
    using r no_index_after_clearServerResources [of u r]
    by (simp add: registerResources_def registerResources_loop_shape map_set_new Let_def)
  with rest show ?thesis by blast
qed

lemma getResource_registerResources:
  "getResource p (fst (registerResources u T r)) =
     (if hasResource p r \<and> p \<notin> set (indexedResourceUris u r) then getResource p r
      else map_option (registeredResource u) (find (\<lambda>t. addPrefix u (MCPResource.uri t) = p) T))"
proof -
  let ?r1 = "clearServerResources u r"
  have keys: "p \<in> fst ` set (resources ?r1) \<longleftrightarrow> hasResource p r \<and> p \<notin> set (indexedResourceUris u r)"
    by (auto simp: resources_clearServerResources hasResource_def map_has_def)
  have look: "p \<notin> set (indexedResourceUris u r) \<Longrightarrow> map_of (resources ?r1) p = map_of (resources r) p"
    by (simp add: resources_clearServerResources map_of_filter_keys)
  have "getResource p (fst (registerResources u T r))
      = map_of (fst (registerResources_loop u T (resources ?r1, [], []))) p"
    by (simp add: registerResources_def getResource_def map_get_def Let_def case_prod_beta)
  also have "\<dots> = (if p \<in> fst ` set (resources ?r1) then map_of (resources ?r1) p
      else map_option (registeredResource u) (find (\<lambda>t. addPrefix u (MCPResource.uri t) = p) T))"
    by (simp only: registerResources_loop_shape insert_loop_lookup)
  finally show ?thesis using keys look by (simp add: getResource_def map_get_def)
qed

lemma hasResource_clearServerResources:
  "hasResource p (clearServerResources u r) \<longleftrightarrow> hasResource p r \<and> p \<notin> set (indexedResourceUris u r)"
  by (auto simp: resources_clearServerResources hasResource_def map_has_def)

lemma resourceConflicts_preexisting:
  assumes "t \<in> set T" and "hasResource (addPrefix u (MCPResource.uri t)) (clearServerResources u r)"
  shows "addPrefix u (MCPResource.uri t) \<in> set (resourceConflicts (snd (registerResources u T r)))"
proof -
  let ?r1 = "clearServerResources u r"
  let ?key = "\<lambda>t. addPrefix u (MCPResource.uri t)"
  from registerResources_shape [of u T r] obtain e ds where
    r: "registerResources u T r
      = (\<lparr>resources = resources ?r1 @ e, serverResources = serverResources ?r1 @ [(u, map fst e)]\<rparr>,
         map ResourceUriConflict ds @ [RegisteredResources (length e) u])"
    and i: "fst ` set e \<inter> fst ` set (resources ?r1) = {}"
    and c: "\<forall>p. count_list (map fst e) p + count_list ds p = count_list (map ?key T) p"
    by blast
  from assms(2) i have "?key t \<notin> set (map fst e)"
    by (auto simp: hasResource_def map_has_def)
  then have "count_list (map fst e) (?key t) = 0" by (simp add: count_list_0_iff)
  moreover from assms(1) have "count_list (map ?key T) (?key t) \<noteq> 0"
    by (simp add: count_list_0_iff)
  ultimately have "count_list ds (?key t) \<noteq> 0" using c by (metis add_0)
  then have "?key t \<in> set ds" by (simp add: count_list_0_iff)
  then show ?thesis by (simp add: r resourceConflicts_output)
qed

lemma indexedResourceUris_registerResources:
  "distinct (indexedResourceUris u (fst (registerResources u T r)))
   \<and> set (indexedResourceUris u (fst (registerResources u T r)))
       = (\<lambda>t. addPrefix u (MCPResource.uri t)) ` set T
         - {p. hasResource p r \<and> p \<notin> set (indexedResourceUris u r)}"
proof -
  let ?r1 = "clearServerResources u r"
  from registerResources_shape [of u T r] obtain e ds where
    r: "registerResources u T r
      = (\<lparr>resources = resources ?r1 @ e, serverResources = serverResources ?r1 @ [(u, map fst e)]\<rparr>,
         map ResourceUriConflict ds @ [RegisteredResources (length e) u])"
    and d: "distinct (map fst e)"
    and k: "fst ` set e = (\<lambda>t. addPrefix u (MCPResource.uri t)) ` set T - fst ` set (resources ?r1)"
    by blast
  have "map_of (serverResources ?r1) u = None"
    using no_index_after_clearServerResources [of u r] by (simp add: map_of_eq_None_iff)
  then have n: "indexedResourceUris u (fst (registerResources u T r)) = map fst e"
    by (simp add: r indexedResourceUris_def map_get_def map_add_def)
  have "fst ` set (resources ?r1) = {p. hasResource p r \<and> p \<notin> set (indexedResourceUris u r)}"
    using hasResource_clearServerResources [of _ u r] by (auto simp: hasResource_def map_has_def)
  with k d n show ?thesis by simp
qed

lemma indexedResourceUris_other_upstream:
  assumes "v \<noteq> u"
  shows "indexedResourceUris v (fst (registerResources u T r)) = indexedResourceUris v r"
proof -
  let ?r1 = "clearServerResources u r"
  from registerResources_shape [of u T r] obtain e ds where
    r: "registerResources u T r
      = (\<lparr>resources = resources ?r1 @ e, serverResources = serverResources ?r1 @ [(u, map fst e)]\<rparr>,
         map ResourceUriConflict ds @ [RegisteredResources (length e) u])"
    by blast
  have "map_of (serverResources ?r1 @ [(u, map fst e)]) v = map_of (serverResources r) v"
    using assms
    by (auto simp: serverResources_clearServerResources map_add_def map_of_map_delete
        split: option.split)
  then show ?thesis by (simp add: r indexedResourceUris_def map_get_def)
qed

lemma resourceIndexSound_other_owner:
  assumes "resourceIndexSound r" and "getResource p r = Some t" and "RegisteredResource.serverName t \<noteq> u"
  shows "hasResource p r \<and> p \<notin> set (indexedResourceUris u r)"
proof -
  from assms(2) have "hasResource p r"
    by (simp add: hasResource_def getResource_def map_get_def map_has_iff)
  moreover have "p \<notin> set (indexedResourceUris u r)"
  proof
    assume "p \<in> set (indexedResourceUris u r)"
    with assms(1) obtain t' where "getResource p r = Some t'" "RegisteredResource.serverName t' = u"
      unfolding resourceIndexSound_def by blast
    with assms(2,3) show False by simp
  qed
  ultimately show ?thesis by simp
qed

lemma resourceIndexSound_registerResources:
  assumes "resourceIndexSound r"
  shows "resourceIndexSound (fst (registerResources u T r))"
  unfolding resourceIndexSound_def
proof (intro allI ballI)
  fix v p
  assume p: "p \<in> set (indexedResourceUris v (fst (registerResources u T r)))"
  show "\<exists>t. getResource p (fst (registerResources u T r)) = Some t \<and> RegisteredResource.serverName t = v"
  proof (cases "v = u")
    case True
    with p indexedResourceUris_registerResources [of u T r]
    have inT: "p \<in> (\<lambda>t. addPrefix u (MCPResource.uri t)) ` set T"
      and new: "\<not> (hasResource p r \<and> p \<notin> set (indexedResourceUris u r))"
      by auto
    from inT have "find (\<lambda>t. addPrefix u (MCPResource.uri t) = p) T \<noteq> None"
      by (auto simp: find_None_iff)
    then obtain t0 where "find (\<lambda>t. addPrefix u (MCPResource.uri t) = p) T = Some t0" by auto
    moreover from new have "getResource p (fst (registerResources u T r))
        = map_option (registeredResource u) (find (\<lambda>t. addPrefix u (MCPResource.uri t) = p) T)"
      by (subst getResource_registerResources) (rule if_not_P)
    ultimately have "getResource p (fst (registerResources u T r)) = Some (registeredResource u t0)"
      by simp
    with True show ?thesis by (simp add: registeredResource_def)
  next
    case False
    with p have "p \<in> set (indexedResourceUris v r)"
      by (simp add: indexedResourceUris_other_upstream)
    with assms obtain t where t: "getResource p r = Some t" "RegisteredResource.serverName t = v"
      unfolding resourceIndexSound_def by blast
    from False t(2) have "RegisteredResource.serverName t \<noteq> u" by simp
    from resourceIndexSound_other_owner [OF assms t(1) this]
    have "getResource p (fst (registerResources u T r)) = getResource p r"
      by (subst getResource_registerResources) (rule if_P)
    with t(1) have "getResource p (fst (registerResources u T r)) = Some t" by simp
    with t show ?thesis by simp
  qed
qed

lemma resourceIndexSound_clearServerResources:
  assumes "resourceIndexSound r"
  shows "resourceIndexSound (clearServerResources u r)"
  unfolding resourceIndexSound_def
proof (intro allI ballI)
  fix v p
  assume p: "p \<in> set (indexedResourceUris v (clearServerResources u r))"
  have idx: "indexedResourceUris v (clearServerResources u r)
      = (if v = u then [] else indexedResourceUris v r)"
    by (simp add: indexedResourceUris_def map_get_def serverResources_clearServerResources
        map_of_map_delete)
  with p have vu: "v \<noteq> u" and pv: "p \<in> set (indexedResourceUris v r)"
    by (auto split: if_splits)
  with assms obtain t where t: "getResource p r = Some t" "RegisteredResource.serverName t = v"
    unfolding resourceIndexSound_def by blast
  from vu t(2) have "RegisteredResource.serverName t \<noteq> u" by simp
  from resourceIndexSound_other_owner [OF assms t(1) this]
  have "p \<notin> set (indexedResourceUris u r)" by simp
  then have "getResource p (clearServerResources u r) = getResource p r"
    by (simp add: getResource_def map_get_def resources_clearServerResources map_of_filter_keys)
  with t show "\<exists>t. getResource p (clearServerResources u r) = Some t \<and> RegisteredResource.serverName t = v"
    by simp
qed

section \<open>PromptRegistry: what a registration leaves behind\<close>

lemma promptConflicts_output:
  "promptConflicts (map PromptNameConflict ds @ [RegisteredPrompts n u]) = ds"
  by (induction ds) (simp_all add: promptConflicts_def)

lemma registerPrompts_loop_shape:
  "registerPrompts_loop u T st
     = insert_loop (\<lambda>t. addPrefix u (MCPPrompt.name t)) (registeredPrompt u) PromptNameConflict T st"
  by (induction u T st rule: registerPrompts_loop.induct) (simp_all add: Let_def)

lemma prompts_clearServerPrompts:
  "prompts (clearServerPrompts u r) = filter (\<lambda>e. fst e \<notin> set (indexedPromptNames u r)) (prompts r)"
  by (simp add: clearServerPrompts_def indexedPromptNames_def fold_map_delete split: option.split)

lemma serverPrompts_clearServerPrompts:
  "serverPrompts (clearServerPrompts u r) = map_delete u (serverPrompts r)"
  by (auto simp: clearServerPrompts_def map_get_def map_of_eq_None_iff map_delete_absent
      split: option.split)

lemma no_index_after_clearServerPrompts: "u \<notin> fst ` set (serverPrompts (clearServerPrompts u r))"
  by (auto simp: serverPrompts_clearServerPrompts map_delete_def)

lemma registerPrompts_shape:
  "\<exists>e ds. registerPrompts u T r
      = (\<lparr>prompts = prompts (clearServerPrompts u r) @ e,
          serverPrompts = serverPrompts (clearServerPrompts u r) @ [(u, map fst e)]\<rparr>,
         map PromptNameConflict ds @ [RegisteredPrompts (length e) u])
    \<and> distinct (map fst e)
    \<and> fst ` set e \<inter> fst ` set (prompts (clearServerPrompts u r)) = {}
    \<and> fst ` set e = (\<lambda>t. addPrefix u (MCPPrompt.name t)) ` set T
                      - fst ` set (prompts (clearServerPrompts u r))
    \<and> length e + length ds = length T
    \<and> (\<forall>p. count_list (map fst e) p + count_list ds p
              = count_list (map (\<lambda>t. addPrefix u (MCPPrompt.name t)) T) p)"
proof -
  let ?r1 = "clearServerPrompts u r"
  let ?key = "\<lambda>t. addPrefix u (MCPPrompt.name t)"
  have "set [] \<subseteq> fst ` set (prompts ?r1)" by simp
  from insert_loop_shape [OF this, of ?key "registeredPrompt u" PromptNameConflict T "[]"]
  obtain e ds where
    r: "insert_loop ?key (registeredPrompt u) PromptNameConflict T (prompts ?r1, [], [])
          = (prompts ?r1 @ e, [] @ map fst e, [] @ map PromptNameConflict ds)"
    and rest: "distinct (map fst e)" "fst ` set e \<inter> fst ` set (prompts ?r1) = {}"
      "fst ` set e = ?key ` set T - fst ` set (prompts ?r1)"
      "length e + length ds = length T"
      "\<forall>p. count_list (map fst e) p + count_list ds p = count_list (map ?key T) p"
    by blast
  have "registerPrompts u T r
      = (\<lparr>prompts = prompts ?r1 @ e, serverPrompts = serverPrompts ?r1 @ [(u, map fst e)]\<rparr>,
         map PromptNameConflict ds @ [RegisteredPrompts (length e) u])"
    using r no_index_after_clearServerPrompts [of u r]
    by (simp add: registerPrompts_def registerPrompts_loop_shape map_set_new Let_def)
  with rest show ?thesis by blast
qed

lemma getPrompt_registerPrompts:
  "getPrompt p (fst (registerPrompts u T r)) =
     (if hasPrompt p r \<and> p \<notin> set (indexedPromptNames u r) then getPrompt p r
      else map_option (registeredPrompt u) (find (\<lambda>t. addPrefix u (MCPPrompt.name t) = p) T))"
proof -
  let ?r1 = "clearServerPrompts u r"
  have keys: "p \<in> fst ` set (prompts ?r1) \<longleftrightarrow> hasPrompt p r \<and> p \<notin> set (indexedPromptNames u r)"
    by (auto simp: prompts_clearServerPrompts hasPrompt_def map_has_def)
  have look: "p \<notin> set (indexedPromptNames u r) \<Longrightarrow> map_of (prompts ?r1) p = map_of (prompts r) p"
    by (simp add: prompts_clearServerPrompts map_of_filter_keys)
  have "getPrompt p (fst (registerPrompts u T r))
      = map_of (fst (registerPrompts_loop u T (prompts ?r1, [], []))) p"
    by (simp add: registerPrompts_def getPrompt_def map_get_def Let_def case_prod_beta)
  also have "\<dots> = (if p \<in> fst ` set (prompts ?r1) then map_of (prompts ?r1) p
      else map_option (registeredPrompt u) (find (\<lambda>t. addPrefix u (MCPPrompt.name t) = p) T))"
    by (simp only: registerPrompts_loop_shape insert_loop_lookup)
  finally show ?thesis using keys look by (simp add: getPrompt_def map_get_def)
qed

lemma hasPrompt_clearServerPrompts:
  "hasPrompt p (clearServerPrompts u r) \<longleftrightarrow> hasPrompt p r \<and> p \<notin> set (indexedPromptNames u r)"
  by (auto simp: prompts_clearServerPrompts hasPrompt_def map_has_def)

lemma promptConflicts_preexisting:
  assumes "t \<in> set T" and "hasPrompt (addPrefix u (MCPPrompt.name t)) (clearServerPrompts u r)"
  shows "addPrefix u (MCPPrompt.name t) \<in> set (promptConflicts (snd (registerPrompts u T r)))"
proof -
  let ?r1 = "clearServerPrompts u r"
  let ?key = "\<lambda>t. addPrefix u (MCPPrompt.name t)"
  from registerPrompts_shape [of u T r] obtain e ds where
    r: "registerPrompts u T r
      = (\<lparr>prompts = prompts ?r1 @ e, serverPrompts = serverPrompts ?r1 @ [(u, map fst e)]\<rparr>,
         map PromptNameConflict ds @ [RegisteredPrompts (length e) u])"
    and i: "fst ` set e \<inter> fst ` set (prompts ?r1) = {}"
    and c: "\<forall>p. count_list (map fst e) p + count_list ds p = count_list (map ?key T) p"
    by blast
  from assms(2) i have "?key t \<notin> set (map fst e)"
    by (auto simp: hasPrompt_def map_has_def)
  then have "count_list (map fst e) (?key t) = 0" by (simp add: count_list_0_iff)
  moreover from assms(1) have "count_list (map ?key T) (?key t) \<noteq> 0"
    by (simp add: count_list_0_iff)
  ultimately have "count_list ds (?key t) \<noteq> 0" using c by (metis add_0)
  then have "?key t \<in> set ds" by (simp add: count_list_0_iff)
  then show ?thesis by (simp add: r promptConflicts_output)
qed

lemma indexedPromptNames_registerPrompts:
  "distinct (indexedPromptNames u (fst (registerPrompts u T r)))
   \<and> set (indexedPromptNames u (fst (registerPrompts u T r)))
       = (\<lambda>t. addPrefix u (MCPPrompt.name t)) ` set T
         - {p. hasPrompt p r \<and> p \<notin> set (indexedPromptNames u r)}"
proof -
  let ?r1 = "clearServerPrompts u r"
  from registerPrompts_shape [of u T r] obtain e ds where
    r: "registerPrompts u T r
      = (\<lparr>prompts = prompts ?r1 @ e, serverPrompts = serverPrompts ?r1 @ [(u, map fst e)]\<rparr>,
         map PromptNameConflict ds @ [RegisteredPrompts (length e) u])"
    and d: "distinct (map fst e)"
    and k: "fst ` set e = (\<lambda>t. addPrefix u (MCPPrompt.name t)) ` set T - fst ` set (prompts ?r1)"
    by blast
  have "map_of (serverPrompts ?r1) u = None"
    using no_index_after_clearServerPrompts [of u r] by (simp add: map_of_eq_None_iff)
  then have n: "indexedPromptNames u (fst (registerPrompts u T r)) = map fst e"
    by (simp add: r indexedPromptNames_def map_get_def map_add_def)
  have "fst ` set (prompts ?r1) = {p. hasPrompt p r \<and> p \<notin> set (indexedPromptNames u r)}"
    using hasPrompt_clearServerPrompts [of _ u r] by (auto simp: hasPrompt_def map_has_def)
  with k d n show ?thesis by simp
qed

lemma indexedPromptNames_other_upstream:
  assumes "v \<noteq> u"
  shows "indexedPromptNames v (fst (registerPrompts u T r)) = indexedPromptNames v r"
proof -
  let ?r1 = "clearServerPrompts u r"
  from registerPrompts_shape [of u T r] obtain e ds where
    r: "registerPrompts u T r
      = (\<lparr>prompts = prompts ?r1 @ e, serverPrompts = serverPrompts ?r1 @ [(u, map fst e)]\<rparr>,
         map PromptNameConflict ds @ [RegisteredPrompts (length e) u])"
    by blast
  have "map_of (serverPrompts ?r1 @ [(u, map fst e)]) v = map_of (serverPrompts r) v"
    using assms
    by (auto simp: serverPrompts_clearServerPrompts map_add_def map_of_map_delete
        split: option.split)
  then show ?thesis by (simp add: r indexedPromptNames_def map_get_def)
qed

lemma promptIndexSound_other_owner:
  assumes "promptIndexSound r" and "getPrompt p r = Some t" and "RegisteredPrompt.serverName t \<noteq> u"
  shows "hasPrompt p r \<and> p \<notin> set (indexedPromptNames u r)"
proof -
  from assms(2) have "hasPrompt p r"
    by (simp add: hasPrompt_def getPrompt_def map_get_def map_has_iff)
  moreover have "p \<notin> set (indexedPromptNames u r)"
  proof
    assume "p \<in> set (indexedPromptNames u r)"
    with assms(1) obtain t' where "getPrompt p r = Some t'" "RegisteredPrompt.serverName t' = u"
      unfolding promptIndexSound_def by blast
    with assms(2,3) show False by simp
  qed
  ultimately show ?thesis by simp
qed

lemma promptIndexSound_registerPrompts:
  assumes "promptIndexSound r"
  shows "promptIndexSound (fst (registerPrompts u T r))"
  unfolding promptIndexSound_def
proof (intro allI ballI)
  fix v p
  assume p: "p \<in> set (indexedPromptNames v (fst (registerPrompts u T r)))"
  show "\<exists>t. getPrompt p (fst (registerPrompts u T r)) = Some t \<and> RegisteredPrompt.serverName t = v"
  proof (cases "v = u")
    case True
    with p indexedPromptNames_registerPrompts [of u T r]
    have inT: "p \<in> (\<lambda>t. addPrefix u (MCPPrompt.name t)) ` set T"
      and new: "\<not> (hasPrompt p r \<and> p \<notin> set (indexedPromptNames u r))"
      by auto
    from inT have "find (\<lambda>t. addPrefix u (MCPPrompt.name t) = p) T \<noteq> None"
      by (auto simp: find_None_iff)
    then obtain t0 where "find (\<lambda>t. addPrefix u (MCPPrompt.name t) = p) T = Some t0" by auto
    moreover from new have "getPrompt p (fst (registerPrompts u T r))
        = map_option (registeredPrompt u) (find (\<lambda>t. addPrefix u (MCPPrompt.name t) = p) T)"
      by (subst getPrompt_registerPrompts) (rule if_not_P)
    ultimately have "getPrompt p (fst (registerPrompts u T r)) = Some (registeredPrompt u t0)"
      by simp
    with True show ?thesis by (simp add: registeredPrompt_def)
  next
    case False
    with p have "p \<in> set (indexedPromptNames v r)"
      by (simp add: indexedPromptNames_other_upstream)
    with assms obtain t where t: "getPrompt p r = Some t" "RegisteredPrompt.serverName t = v"
      unfolding promptIndexSound_def by blast
    from False t(2) have "RegisteredPrompt.serverName t \<noteq> u" by simp
    from promptIndexSound_other_owner [OF assms t(1) this]
    have "getPrompt p (fst (registerPrompts u T r)) = getPrompt p r"
      by (subst getPrompt_registerPrompts) (rule if_P)
    with t(1) have "getPrompt p (fst (registerPrompts u T r)) = Some t" by simp
    with t show ?thesis by simp
  qed
qed

lemma promptIndexSound_clearServerPrompts:
  assumes "promptIndexSound r"
  shows "promptIndexSound (clearServerPrompts u r)"
  unfolding promptIndexSound_def
proof (intro allI ballI)
  fix v p
  assume p: "p \<in> set (indexedPromptNames v (clearServerPrompts u r))"
  have idx: "indexedPromptNames v (clearServerPrompts u r)
      = (if v = u then [] else indexedPromptNames v r)"
    by (simp add: indexedPromptNames_def map_get_def serverPrompts_clearServerPrompts
        map_of_map_delete)
  with p have vu: "v \<noteq> u" and pv: "p \<in> set (indexedPromptNames v r)"
    by (auto split: if_splits)
  with assms obtain t where t: "getPrompt p r = Some t" "RegisteredPrompt.serverName t = v"
    unfolding promptIndexSound_def by blast
  from vu t(2) have "RegisteredPrompt.serverName t \<noteq> u" by simp
  from promptIndexSound_other_owner [OF assms t(1) this]
  have "p \<notin> set (indexedPromptNames u r)" by simp
  then have "getPrompt p (clearServerPrompts u r) = getPrompt p r"
    by (simp add: getPrompt_def map_get_def prompts_clearServerPrompts map_of_filter_keys)
  with t show "\<exists>t. getPrompt p (clearServerPrompts u r) = Some t \<and> RegisteredPrompt.serverName t = v"
    by simp
qed

section \<open>Re-registering the same list\<close>

lemma clearServerTools_registerTools:
  "clearServerTools u (fst (registerTools u T r)) = clearServerTools u r"
proof -
  let ?r1 = "clearServerTools u r"
  from registerTools_shape [of u T r] obtain e ds where
    r: "registerTools u T r
      = (\<lparr>tools = tools ?r1 @ e, serverTools = serverTools ?r1 @ [(u, map fst e)]\<rparr>,
         map ToolNameConflict ds @ [RegisteredTools (length e) u])"
    and disj: "fst ` set e \<inter> fst ` set (tools ?r1) = {}"
    by blast
  have nou: "u \<notin> fst ` set (serverTools ?r1)" by (rule no_index_after_clearServerTools)
  then have "map_of (serverTools ?r1) u = None" by (simp add: map_of_eq_None_iff)
  then have get: "map_get u (serverTools ?r1 @ [(u, map fst e)]) = Some (map fst e)"
    by (simp add: map_get_def map_add_def)
  have del: "map_delete u (serverTools ?r1 @ [(u, map fst e)]) = serverTools ?r1"
    using map_delete_absent [OF nou] by (simp add: map_delete_def)
  have "fold map_delete (map fst e) (tools ?r1 @ e) = tools ?r1"
    using disj by (intro fold_delete_inserted) auto
  with r get del show ?thesis by (simp add: clearServerTools_def)
qed

lemma registerTools_after_clear:
  "clearServerTools u r' = clearServerTools u r \<Longrightarrow> registerTools u T r' = registerTools u T r"
  by (simp add: registerTools_def)

text \<open>
  C9. Calling \<open>registerTools u T\<close> twice in immediate succession leaves the registry, forward
  map and reverse index with the entries of every upstream in their order, as a single call
  leaves it.
\<close>

theorem registerTools_idempotent:
  "fst (registerTools u T (fst (registerTools u T r))) = fst (registerTools u T r)"
  using registerTools_after_clear [OF clearServerTools_registerTools] by simp


section \<open>Duplicate names within one list\<close>

lemma getServerToolCount_registerTools:
  "getServerToolCount u (fst (registerTools u T r))
     = card ((\<lambda>t. addPrefix u (MCPTool.name t)) ` set T - {p. hasTool p (clearServerTools u r)})
   \<and> getServerToolCount u (fst (registerTools u T r))
       + length (toolConflicts (snd (registerTools u T r))) = length T"
proof -
  let ?r1 = "clearServerTools u r"
  from registerTools_shape [of u T r] obtain e ds where
    r: "registerTools u T r
      = (\<lparr>tools = tools ?r1 @ e, serverTools = serverTools ?r1 @ [(u, map fst e)]\<rparr>,
         map ToolNameConflict ds @ [RegisteredTools (length e) u])"
    and d: "distinct (map fst e)"
    and k: "fst ` set e = (\<lambda>t. addPrefix u (MCPTool.name t)) ` set T - fst ` set (tools ?r1)"
    and l: "length e + length ds = length T"
    by blast
  have "map_of (serverTools ?r1) u = None"
    using no_index_after_clearServerTools [of u r] by (simp add: map_of_eq_None_iff)
  then have n: "getServerToolCount u (fst (registerTools u T r)) = length e"
    by (simp add: r getServerToolCount_def map_get_def map_add_def)
  have "card (fst ` set e) = length e"
    using distinct_card [OF d] by simp
  moreover have "fst ` set (tools ?r1) = {p. hasTool p ?r1}"
    by (auto simp: hasTool_def map_has_def)
  ultimately have "length e
      = card ((\<lambda>t. addPrefix u (MCPTool.name t)) ` set T - {p. hasTool p ?r1})"
    using k by simp
  moreover have "toolConflicts (snd (registerTools u T r)) = ds"
    by (simp add: r toolConflicts_output)
  ultimately show ?thesis using n l by simp
qed

lemma toolConflicts_duplicate:
  assumes "i < j" and "j < length T" and "MCPTool.name (T ! i) = MCPTool.name (T ! j)"
  shows "addPrefix u (MCPTool.name (T ! j)) \<in> set (toolConflicts (snd (registerTools u T r)))"
proof -
  let ?r1 = "clearServerTools u r"
  let ?key = "\<lambda>t. addPrefix u (MCPTool.name t)"
  from registerTools_shape [of u T r] obtain e ds where
    r: "registerTools u T r
      = (\<lparr>tools = tools ?r1 @ e, serverTools = serverTools ?r1 @ [(u, map fst e)]\<rparr>,
         map ToolNameConflict ds @ [RegisteredTools (length e) u])"
    and d: "distinct (map fst e)"
    and c: "\<forall>p. count_list (map fst e) p + count_list ds p = count_list (map ?key T) p"
    by blast
  have "2 \<le> count_list (map ?key T) (map ?key T ! j)"
    using assms by (intro count_list_duplicate [of i j]) simp_all
  then have "2 \<le> count_list (map ?key T) (?key (T ! j))" using assms(2) by simp
  moreover have "count_list (map fst e) (?key (T ! j)) \<le> 1"
    by (rule count_list_distinct_le [OF d])
  ultimately have "count_list ds (?key (T ! j)) \<noteq> 0" using c
    by (metis add.right_neutral numeral_le_one_iff semiring_norm(69) le_trans)
  then have "?key (T ! j) \<in> set ds" by (simp add: count_list_0_iff)
  then show ?thesis by (simp add: r toolConflicts_output)
qed

text \<open>
  C10. Within one \<open>registerTools u T\<close> call, when two elements of \<open>T\<close> have the same name
  (hence the same prefixed id), the later one is dropped with the conflict warning of a
  collision; the entry stored under that id is the pre-existing one if there is one, and
  otherwise the record of the first element of \<open>T\<close> with that name. The size of the
  reverse-index set of \<open>u\<close>, which \<open>getServerToolCount u\<close> returns, is the number of entries
  inserted: with the number of warnings it adds up to the length of \<open>T\<close>, and it is
  smaller than the length of \<open>T\<close>.
\<close>

theorem registerTools_duplicate_names:
  assumes "i < j" and "j < length T" and "MCPTool.name (T ! i) = MCPTool.name (T ! j)"
  shows "addPrefix u (MCPTool.name (T ! j)) \<in> set (toolConflicts (snd (registerTools u T r)))
    \<and> getTool (addPrefix u (MCPTool.name (T ! j))) (fst (registerTools u T r))
        = (if hasTool (addPrefix u (MCPTool.name (T ! j))) (clearServerTools u r)
           then getTool (addPrefix u (MCPTool.name (T ! j))) r
           else map_option (registeredTool u)
                  (find (\<lambda>t. MCPTool.name t = MCPTool.name (T ! j)) T))
    \<and> getServerToolCount u (fst (registerTools u T r))
        = card ((\<lambda>t. addPrefix u (MCPTool.name t)) ` set T
                - {p. hasTool p (clearServerTools u r)})
    \<and> getServerToolCount u (fst (registerTools u T r))
        + length (toolConflicts (snd (registerTools u T r))) = length T
    \<and> getServerToolCount u (fst (registerTools u T r)) < length T"
proof -
  let ?p = "addPrefix u (MCPTool.name (T ! j))"
  have warned: "?p \<in> set (toolConflicts (snd (registerTools u T r)))"
    using assms by (rule toolConflicts_duplicate)
  then have "0 < length (toolConflicts (snd (registerTools u T r)))"
    by (cases "toolConflicts (snd (registerTools u T r))") simp_all
  moreover note cnt = getServerToolCount_registerTools [of u T r]
  ultimately have less: "getServerToolCount u (fst (registerTools u T r)) < length T"
    by linarith
  have "getTool ?p (fst (registerTools u T r))
        = (if hasTool ?p (clearServerTools u r) then getTool ?p r
           else map_option (registeredTool u)
                  (find (\<lambda>t. MCPTool.name t = MCPTool.name (T ! j)) T))"
    by (simp add: getTool_registerTools hasTool_clearServerTools addPrefix_inject)
  with warned cnt less show ?thesis by blast
qed


theorem registerTools_duplicate_names_witness:
  "(0::nat) < 2 \<and> 2 < length calc_tools
   \<and> MCPTool.name (calc_tools ! 0) = MCPTool.name (calc_tools ! 2)
   \<and> (addPrefix ''calc'' (MCPTool.name (calc_tools ! 2))
        \<in> set (toolConflicts (snd (registerTools ''calc'' calc_tools no_tools)))
    \<and> getTool (addPrefix ''calc'' (MCPTool.name (calc_tools ! 2)))
          (fst (registerTools ''calc'' calc_tools no_tools))
        = (if hasTool (addPrefix ''calc'' (MCPTool.name (calc_tools ! 2)))
                (clearServerTools ''calc'' no_tools)
           then getTool (addPrefix ''calc'' (MCPTool.name (calc_tools ! 2))) no_tools
           else map_option (registeredTool ''calc'')
                  (find (\<lambda>t. MCPTool.name t = MCPTool.name (calc_tools ! 2)) calc_tools))
    \<and> getServerToolCount ''calc'' (fst (registerTools ''calc'' calc_tools no_tools))
        = card ((\<lambda>t. addPrefix ''calc'' (MCPTool.name t)) ` set calc_tools
                - {p. hasTool p (clearServerTools ''calc'' no_tools)})
    \<and> getServerToolCount ''calc'' (fst (registerTools ''calc'' calc_tools no_tools))
        + length (toolConflicts (snd (registerTools ''calc'' calc_tools no_tools)))
        = length calc_tools
    \<and> getServerToolCount ''calc'' (fst (registerTools ''calc'' calc_tools no_tools))
        < length calc_tools)"
proof -
  have h1: "(0::nat) < 2" by simp
  have h2: "2 < length calc_tools" by (simp add: calc_tools_def)
  have h3: "MCPTool.name (calc_tools ! 0) = MCPTool.name (calc_tools ! 2)"
    by (simp add: calc_tools_def)
  show ?thesis
    by (rule conjI [OF h1 conjI [OF h2 conjI [OF h3
          registerTools_duplicate_names [OF h1 h2 h3]]]])
qed

lemma registerTools_calc_example:
  "registerTools ''calc'' calc_tools no_tools
     = (\<lparr>tools = [(''calc___add'', registeredTool ''calc'' (calc_tools ! 0)),
                  (''calc___sub'', registeredTool ''calc'' (calc_tools ! 1))],
         serverTools = [(''calc'', [''calc___add'', ''calc___sub''])]\<rparr>,
        [ToolNameConflict ''calc___add'', RegisteredTools 2 ''calc''])"
  by (simp add: registerTools_def clearServerTools_def no_tools_def calc_tools_def map_get_def
      map_has_def addPrefix_def SEPARATOR_def set_add_def Let_def)

section \<open>Registration replaces the upstream's prior set\<close>

text \<open>
  C2. \<open>registerTools u T\<close> first removes the entries the reverse index holds for \<open>u\<close> and then
  inserts the tools of \<open>T\<close> under their prefixed ids. Hence, for every prefixed id \<open>p\<close>: an
  entry that was there before and is not one of \<open>u\<close>'s own (it belongs to another upstream)
  is returned unchanged (in a registry whose reverse index is sound, that is every entry
  whose \<open>serverName\<close> is another upstream); otherwise the lookup returns the record of the
  first tool of \<open>T\<close> with that prefixed id, and nothing when \<open>T\<close> has none, so that the prior entries of \<open>u\<close> are
  gone. The reverse-index set of \<open>u\<close> afterwards holds the prefixed ids of \<open>T\<close> that did not
  collide. Every tool of \<open>T\<close> whose prefixed id collides with such a pre-existing entry is
  dropped with a conflict warning. The same holds for \<open>registerResources\<close> and
  \<open>registerPrompts\<close>.
\<close>

theorem register_replaces_prior_set:
  "(getTool p (fst (registerTools u T rt))
      = (if hasTool p rt \<and> p \<notin> set (indexedToolNames u rt) then getTool p rt
         else map_option (registeredTool u) (find (\<lambda>t. addPrefix u (MCPTool.name t) = p) T))
    \<and> set (indexedToolNames u (fst (registerTools u T rt)))
        = (\<lambda>t. addPrefix u (MCPTool.name t)) ` set T
          - {p. hasTool p rt \<and> p \<notin> set (indexedToolNames u rt)}
    \<and> (\<forall>t \<in> set T.
          hasTool (addPrefix u (MCPTool.name t)) rt
          \<and> addPrefix u (MCPTool.name t) \<notin> set (indexedToolNames u rt)
          \<longrightarrow> addPrefix u (MCPTool.name t) \<in> set (toolConflicts (snd (registerTools u T rt))))
    \<and> (toolIndexSound rt \<and> getTool p rt = Some et \<and> RegisteredTool.serverName et \<noteq> u
          \<longrightarrow> getTool p (fst (registerTools u T rt)) = Some et))
   \<and> (getResource p (fst (registerResources u R rr))
      = (if hasResource p rr \<and> p \<notin> set (indexedResourceUris u rr) then getResource p rr
         else map_option (registeredResource u)
                (find (\<lambda>t. addPrefix u (MCPResource.uri t) = p) R))
    \<and> set (indexedResourceUris u (fst (registerResources u R rr)))
        = (\<lambda>t. addPrefix u (MCPResource.uri t)) ` set R
          - {p. hasResource p rr \<and> p \<notin> set (indexedResourceUris u rr)}
    \<and> (\<forall>t \<in> set R.
          hasResource (addPrefix u (MCPResource.uri t)) rr
          \<and> addPrefix u (MCPResource.uri t) \<notin> set (indexedResourceUris u rr)
          \<longrightarrow> addPrefix u (MCPResource.uri t)
                \<in> set (resourceConflicts (snd (registerResources u R rr))))
    \<and> (resourceIndexSound rr \<and> getResource p rr = Some er \<and> RegisteredResource.serverName er \<noteq> u
          \<longrightarrow> getResource p (fst (registerResources u R rr)) = Some er))
   \<and> (getPrompt p (fst (registerPrompts u P rp))
      = (if hasPrompt p rp \<and> p \<notin> set (indexedPromptNames u rp) then getPrompt p rp
         else map_option (registeredPrompt u)
                (find (\<lambda>t. addPrefix u (MCPPrompt.name t) = p) P))
    \<and> set (indexedPromptNames u (fst (registerPrompts u P rp)))
        = (\<lambda>t. addPrefix u (MCPPrompt.name t)) ` set P
          - {p. hasPrompt p rp \<and> p \<notin> set (indexedPromptNames u rp)}
    \<and> (\<forall>t \<in> set P.
          hasPrompt (addPrefix u (MCPPrompt.name t)) rp
          \<and> addPrefix u (MCPPrompt.name t) \<notin> set (indexedPromptNames u rp)
          \<longrightarrow> addPrefix u (MCPPrompt.name t)
                \<in> set (promptConflicts (snd (registerPrompts u P rp))))
    \<and> (promptIndexSound rp \<and> getPrompt p rp = Some ep \<and> RegisteredPrompt.serverName ep \<noteq> u
          \<longrightarrow> getPrompt p (fst (registerPrompts u P rp)) = Some ep))"
proof -
  have tools: "\<forall>t \<in> set T.
          hasTool (addPrefix u (MCPTool.name t)) rt
          \<and> addPrefix u (MCPTool.name t) \<notin> set (indexedToolNames u rt)
          \<longrightarrow> addPrefix u (MCPTool.name t) \<in> set (toolConflicts (snd (registerTools u T rt)))"
    using toolConflicts_preexisting [of _ T u rt] by (simp add: hasTool_clearServerTools)
  have resources: "\<forall>t \<in> set R.
          hasResource (addPrefix u (MCPResource.uri t)) rr
          \<and> addPrefix u (MCPResource.uri t) \<notin> set (indexedResourceUris u rr)
          \<longrightarrow> addPrefix u (MCPResource.uri t)
                \<in> set (resourceConflicts (snd (registerResources u R rr)))"
    using resourceConflicts_preexisting [of _ R u rr] by (simp add: hasResource_clearServerResources)
  have prompts: "\<forall>t \<in> set P.
          hasPrompt (addPrefix u (MCPPrompt.name t)) rp
          \<and> addPrefix u (MCPPrompt.name t) \<notin> set (indexedPromptNames u rp)
          \<longrightarrow> addPrefix u (MCPPrompt.name t)
                \<in> set (promptConflicts (snd (registerPrompts u P rp)))"
    using promptConflicts_preexisting [of _ P u rp] by (simp add: hasPrompt_clearServerPrompts)
  have towner: "toolIndexSound rt \<and> getTool p rt = Some et \<and> RegisteredTool.serverName et \<noteq> u
          \<longrightarrow> getTool p (fst (registerTools u T rt)) = Some et"
    using toolIndexSound_other_owner [of rt p et u] by (simp add: getTool_registerTools)
  have rowner: "resourceIndexSound rr \<and> getResource p rr = Some er
          \<and> RegisteredResource.serverName er \<noteq> u
          \<longrightarrow> getResource p (fst (registerResources u R rr)) = Some er"
    using resourceIndexSound_other_owner [of rr p er u]
    by (simp add: getResource_registerResources)
  have powner: "promptIndexSound rp \<and> getPrompt p rp = Some ep
          \<and> RegisteredPrompt.serverName ep \<noteq> u
          \<longrightarrow> getPrompt p (fst (registerPrompts u P rp)) = Some ep"
    using promptIndexSound_other_owner [of rp p ep u]
    by (simp add: getPrompt_registerPrompts)
  show ?thesis
    using tools resources prompts towner rowner powner
      getTool_registerTools [of p u T rt] getResource_registerResources [of p u R rr]
      getPrompt_registerPrompts [of p u P rp]
      indexedToolNames_registerTools [of u T rt] indexedResourceUris_registerResources [of u R rr]
      indexedPromptNames_registerPrompts [of u P rp]
    by blast
qed

theorem register_replaces_prior_set_witness:
  "toolIndexSound tools_of_a \<and> resourceIndexSound resources_of_a \<and> promptIndexSound prompts_of_a
   \<and> RegisteredTool.serverName (registeredTool ''a'' (tool_named ''_x'')) \<noteq> ''a_''
   \<and> RegisteredResource.serverName (registeredResource ''a'' (resource_at ''_x'')) \<noteq> ''a_''
   \<and> RegisteredPrompt.serverName (registeredPrompt ''a'' (prompt_named ''_x'')) \<noteq> ''a_''
   \<and> tool_named ''x'' \<in> set [tool_named ''x'']
   \<and> hasTool ''a____x'' tools_of_a \<and> ''a____x'' \<notin> set (indexedToolNames ''a_'' tools_of_a)
   \<and> ''a____x'' \<in> set (toolConflicts (snd (registerTools ''a_'' [tool_named ''x''] tools_of_a)))
   \<and> getTool ''a____x'' (fst (registerTools ''a_'' [tool_named ''x''] tools_of_a))
       = Some (registeredTool ''a'' (tool_named ''_x''))
   \<and> indexedToolNames ''a_'' (fst (registerTools ''a_'' [tool_named ''x''] tools_of_a)) = []
   \<and> resource_at ''x'' \<in> set [resource_at ''x'']
   \<and> hasResource ''a____x'' resources_of_a
   \<and> ''a____x'' \<notin> set (indexedResourceUris ''a_'' resources_of_a)
   \<and> ''a____x''
       \<in> set (resourceConflicts (snd (registerResources ''a_'' [resource_at ''x''] resources_of_a)))
   \<and> getResource ''a____x'' (fst (registerResources ''a_'' [resource_at ''x''] resources_of_a))
       = Some (registeredResource ''a'' (resource_at ''_x''))
   \<and> prompt_named ''x'' \<in> set [prompt_named ''x'']
   \<and> hasPrompt ''a____x'' prompts_of_a
   \<and> ''a____x'' \<notin> set (indexedPromptNames ''a_'' prompts_of_a)
   \<and> ''a____x''
       \<in> set (promptConflicts (snd (registerPrompts ''a_'' [prompt_named ''x''] prompts_of_a)))
   \<and> getPrompt ''a____x'' (fst (registerPrompts ''a_'' [prompt_named ''x''] prompts_of_a))
       = Some (registeredPrompt ''a'' (prompt_named ''_x''))"
proof -
  have kt: "addPrefix ''a_'' (MCPTool.name (tool_named ''x'')) = ''a____x''"
    and kr: "addPrefix ''a_'' (MCPResource.uri (resource_at ''x'')) = ''a____x''"
    and kp: "addPrefix ''a_'' (MCPPrompt.name (prompt_named ''x'')) = ''a____x''"
    by (simp_all add: addPrefix_def SEPARATOR_def tool_named_def resource_at_def prompt_named_def)
  have ht: "hasTool ''a____x'' tools_of_a \<and> ''a____x'' \<notin> set (indexedToolNames ''a_'' tools_of_a)"
    by (simp add: hasTool_def map_has_def tools_of_a_def indexedToolNames_def map_get_def)
  have hr: "hasResource ''a____x'' resources_of_a
      \<and> ''a____x'' \<notin> set (indexedResourceUris ''a_'' resources_of_a)"
    by (simp add: hasResource_def map_has_def resources_of_a_def indexedResourceUris_def
        map_get_def)
  have hp: "hasPrompt ''a____x'' prompts_of_a
      \<and> ''a____x'' \<notin> set (indexedPromptNames ''a_'' prompts_of_a)"
    by (simp add: hasPrompt_def map_has_def prompts_of_a_def indexedPromptNames_def map_get_def)
  have gt: "getTool ''a____x'' tools_of_a = Some (registeredTool ''a'' (tool_named ''_x''))"
    by (simp add: getTool_def map_get_def tools_of_a_def)
  have gr: "getResource ''a____x'' resources_of_a
      = Some (registeredResource ''a'' (resource_at ''_x''))"
    by (simp add: getResource_def map_get_def resources_of_a_def)
  have gp: "getPrompt ''a____x'' prompts_of_a = Some (registeredPrompt ''a'' (prompt_named ''_x''))"
    by (simp add: getPrompt_def map_get_def prompts_of_a_def)
  have sound: "toolIndexSound tools_of_a" "resourceIndexSound resources_of_a"
    "promptIndexSound prompts_of_a"
    by (auto simp: toolIndexSound_def indexedToolNames_def tools_of_a_def getTool_def
        registeredTool_def resourceIndexSound_def indexedResourceUris_def resources_of_a_def
        getResource_def registeredResource_def promptIndexSound_def indexedPromptNames_def
        prompts_of_a_def getPrompt_def registeredPrompt_def map_get_def split: if_splits)
  have owner: "RegisteredTool.serverName (registeredTool ''a'' (tool_named ''_x'')) \<noteq> ''a_''"
    "RegisteredResource.serverName (registeredResource ''a'' (resource_at ''_x'')) \<noteq> ''a_''"
    "RegisteredPrompt.serverName (registeredPrompt ''a'' (prompt_named ''_x'')) \<noteq> ''a_''"
    by (simp_all add: registeredTool_def registeredResource_def registeredPrompt_def)
  note inst = register_replaces_prior_set [where p = "''a____x''" and u = "''a_''"
      and T = "[tool_named ''x'']" and rt = tools_of_a
      and et = "registeredTool ''a'' (tool_named ''_x'')"
      and R = "[resource_at ''x'']" and rr = resources_of_a
      and er = "registeredResource ''a'' (resource_at ''_x'')"
      and P = "[prompt_named ''x'']" and rp = prompts_of_a
      and ep = "registeredPrompt ''a'' (prompt_named ''_x'')"]
  from inst ht kt
  have t: "''a____x'' \<in> set (toolConflicts (snd (registerTools ''a_'' [tool_named ''x''] tools_of_a)))
    \<and> getTool ''a____x'' (fst (registerTools ''a_'' [tool_named ''x''] tools_of_a))
       = Some (registeredTool ''a'' (tool_named ''_x''))
    \<and> set (indexedToolNames ''a_'' (fst (registerTools ''a_'' [tool_named ''x''] tools_of_a))) = {}"
    by (simp add: gt)
  from inst hr kr
  have r: "''a____x''
       \<in> set (resourceConflicts (snd (registerResources ''a_'' [resource_at ''x''] resources_of_a)))
    \<and> getResource ''a____x'' (fst (registerResources ''a_'' [resource_at ''x''] resources_of_a))
       = Some (registeredResource ''a'' (resource_at ''_x''))"
    by (simp add: gr)
  from inst hp kp
  have p: "''a____x''
       \<in> set (promptConflicts (snd (registerPrompts ''a_'' [prompt_named ''x''] prompts_of_a)))
    \<and> getPrompt ''a____x'' (fst (registerPrompts ''a_'' [prompt_named ''x''] prompts_of_a))
       = Some (registeredPrompt ''a'' (prompt_named ''_x''))"
    by (simp add: gp)
  from t r p ht hr hp sound owner show ?thesis by simp
qed

section \<open>Routing a tool call\<close>

text \<open>
  When \<open>RequestRouter.handleToolCall\<close> answers \<open>notFound\<close>: the name \<open>n\<close> is absent from the
  tool registry, or the upstream name that \<open>removePrefix\<close> reads out of \<open>n\<close> has no connector
  or one that is not connected. The response is the error \<open>-32601\<close> with the message
  \<open>Tool not found or server unavailable: n\<close>.
\<close>

lemma router_notFound_by_parsed_name:
  assumes "n \<noteq> []" and "params request = Some ps" and "js_prop ps ''name'' = Some (JStr n)"
    and "registry_getTool n cr = None
         \<or> (\<exists>server original. removePrefix n = Some (server, original)
              \<and> (case getConnector server conns of
                    None \<Rightarrow> True | Some c \<Rightarrow> \<not> isConnected c))"
  shows "router_handleToolCall cr conns request
           = Inr (errorResponse (reqId request) (- 32601)
                   (''Tool not found or server unavailable: '' @ n))"
proof -
  from assms(4) have none: "router_routeToolCall cr conns n = None"
  proof
    assume "registry_getTool n cr = None"
    then show ?thesis by (simp add: router_routeToolCall_def split: option.split)
  next
    assume "\<exists>server original. removePrefix n = Some (server, original)
              \<and> (case getConnector server conns of
                    None \<Rightarrow> True | Some c \<Rightarrow> \<not> isConnected c)"
    then obtain server original where rp: "removePrefix n = Some (server, original)"
      and off: "case getConnector server conns of
                  None \<Rightarrow> True | Some c \<Rightarrow> \<not> isConnected c"
      by blast
    show ?thesis
    proof (cases "getConnector server conns")
      case None
      with rp show ?thesis by (simp add: router_routeToolCall_def split: option.split)
    next
      case (Some k)
      with off have "\<not> isConnected k" by simp
      with rp Some show ?thesis by (simp add: router_routeToolCall_def split: option.split)
    qed
  qed
  from assms(3) have "ps \<noteq> JNull" by (cases ps) simp_all
  with none assms(1,2,3) show ?thesis
    by (cases ps) (simp_all add: router_handleToolCall_def)
qed

text \<open>
  The handlers of \<open>McpHubServer\<close> and \<open>McpHub\<close> read the owning upstream from the registered
  record: when the name is absent from the registry, or the connector of the owning
  upstream is absent or not connected, both throw the one error with the message
  \<open>Tool not found or server unavailable: n\<close>.
\<close>

lemma server_notFound_by_owner:
  assumes "n \<noteq> []" and "CallToolParams.name cp = n"
    and "case registry_getTool n cr of
           None \<Rightarrow> True
         | Some tool \<Rightarrow>
             (case getConnector (RegisteredTool.serverName tool) conns of
                None \<Rightarrow> True | Some c \<Rightarrow> \<not> isConnected c)"
  shows "server_callTool stringify fresh cr conns cp
           = Inl (Error (''Tool not found or server unavailable: '' @ n))"
proof -
  have "server_routeToolCall cr conns n = None"
  proof (cases "registry_getTool n cr")
    case None
    then show ?thesis by (simp add: server_routeToolCall_def)
  next
    case (Some tool)
    note found = this
    show ?thesis
    proof (cases "getConnector (RegisteredTool.serverName tool) conns")
      case None
      with found show ?thesis by (simp add: server_routeToolCall_def)
    next
      case (Some k)
      with assms(3) found have "\<not> isConnected k" by simp
      with found Some show ?thesis by (simp add: server_routeToolCall_def)
    qed
  qed
  with assms(1,2) show ?thesis by (simp add: server_callTool_def)
qed

lemma hub_notFound_by_owner:
  assumes "n \<noteq> []" and "CallToolParams.name cp = n"
    and "case find (\<lambda>t. RegisteredTool.prefixedName t = n) (registry_getAllTools cr) of
           None \<Rightarrow> True
         | Some tool \<Rightarrow>
             (case getConnector (RegisteredTool.serverName tool) conns of
                None \<Rightarrow> True | Some c \<Rightarrow> \<not> isConnected c)"
  shows "hub_callTool now cr conns cp
           = Inl (Error (''Tool not found or server unavailable: '' @ n))"
proof -
  have "hub_routeToolCall cr conns n = None"
  proof (cases "find (\<lambda>t. RegisteredTool.prefixedName t = n) (registry_getAllTools cr)")
    case None
    then show ?thesis by (simp add: hub_routeToolCall_def)
  next
    case (Some tool)
    note found = this
    show ?thesis
    proof (cases "getConnector (RegisteredTool.serverName tool) conns")
      case None
      with found show ?thesis by (simp add: hub_routeToolCall_def)
    next
      case (Some k)
      with assms(3) found have "\<not> isConnected k" by simp
      with found Some show ?thesis by (simp add: hub_routeToolCall_def)
    qed
  qed
  with assms(1,2) show ?thesis by (simp add: hub_callTool_def)
qed

lemma removePrefix_a_x: "removePrefix ''a____x'' = Some (''a'', ''_x'')"
  by (simp add: removePrefix_def SEPARATOR_def)

lemma registry_of_a_lookup:
  "registry_getTool ''a____x'' registry_of_a = Some (registeredTool ''a'' (tool_named ''_x''))"
  "registry_getTool ''nope___x'' registry_of_a = None"
  "registry_getAllTools registry_of_a = [registeredTool ''a'' (tool_named ''_x'')]"
  by (simp_all add: registry_getTool_def registry_getAllTools_def registry_of_a_def getTool_def
      getAllTools_def map_get_def tools_of_a_def)

lemma registry_of_a_underscore_lookup:
  "registry_getTool ''a____x'' registry_of_a_underscore
     = Some (registeredTool ''a_'' (tool_named ''x''))"
  "registry_getTool ''nope___x'' registry_of_a_underscore = None"
  "registry_getAllTools registry_of_a_underscore = [registeredTool ''a_'' (tool_named ''x'')]"
  by (simp_all add: registry_getTool_def registry_getAllTools_def registry_of_a_underscore_def
      getTool_def getAllTools_def map_get_def tools_of_a_underscore_def)

lemma registered_x_of_a_underscore:
  "RegisteredTool.serverName (registeredTool ''a_'' (tool_named ''x'')) = ''a_''"
  "RegisteredTool.originalName (registeredTool ''a_'' (tool_named ''x'')) = ''x''"
  "RegisteredTool.prefixedName (registeredTool ''a_'' (tool_named ''x'')) = ''a____x''"
  by (simp_all add: registeredTool_def tool_named_def addPrefix_def SEPARATOR_def)

lemma connectors_a_and_a_underscore:
  "getConnector ''a'' [(''a'', answering), (''a_'', down)] = Some answering"
  "getConnector ''a_'' [(''a'', answering), (''a_'', down)] = Some down"
  "isConnected answering" "hasClient answering" "\<not> isConnected down"
  by (simp_all add: getConnector_def map_get_def isConnected_def answering_def down_def)

lemma tools_of_a_underscore_registered:
  "fst (registerTools ''a_'' [tool_named ''x''] no_tools) = tools_of_a_underscore"
  by (simp add: registerTools_def clearServerTools_def no_tools_def map_get_def map_delete_def
      map_has_def set_add_def registeredTool_def tool_named_def addPrefix_def SEPARATOR_def
      tools_of_a_underscore_def Let_def)

text \<open>
  C3, evaluated where the code departs from it. Upstream \<open>a_\<close> has registered its tool \<open>x\<close>
  under \<open>a____x\<close> and is not connected; upstream \<open>a\<close> is connected. For a call of
  \<open>a____x\<close>, \<open>RequestRouter.routeToolCall\<close> looks up the connector of the name that
  \<open>removePrefix\<close> returns, \<open>a\<close>, and not the one of the owning upstream: the call is sent to
  \<open>a\<close> as a call of \<open>_x\<close>, and the client receives the answer of \<open>a\<close> instead of the
  \<open>-32601\<close> error it receives for a name that is absent from the registry. The handlers of
  \<open>McpHubServer\<close> and \<open>McpHub\<close>, which read the owning upstream from the registered record,
  find no route for the same call.
\<close>

theorem toolCall_owner_down_sent_elsewhere:
  "fst (registerTools ''a_'' [tool_named ''x''] no_tools) = toolRegistry registry_of_a_underscore
   \<and> map_option RegisteredTool.serverName (registry_getTool ''a____x'' registry_of_a_underscore)
       = Some ''a_''
   \<and> map_option isConnected (getConnector ''a_'' [(''a'', answering), (''a_'', down)])
       = Some False
   \<and> router_routeToolCall registry_of_a_underscore [(''a'', answering), (''a_'', down)] ''a____x''
       = Some \<lparr>routeServerName = ''a'', routeOriginalName = ''_x'', routeConnector = answering\<rparr>
   \<and> router_handleToolCall registry_of_a_underscore [(''a'', answering), (''a_'', down)]
         (call_request ''a____x'')
       = Inr \<lparr>respId = JNum 7, result = Some done_result, error = None\<rparr>
   \<and> router_handleToolCall registry_of_a_underscore [(''a'', answering), (''a_'', down)]
         (call_request ''nope___x'')
       = Inr \<lparr>respId = JNum 7, result = None,
              error = Some \<lparr>code = - 32601,
                            message = ''Tool not found or server unavailable: nope___x''\<rparr>\<rparr>
   \<and> server_routeToolCall registry_of_a_underscore [(''a'', answering), (''a_'', down)] ''a____x''
       = None
   \<and> hub_routeToolCall registry_of_a_underscore [(''a'', answering), (''a_'', down)] ''a____x''
       = None"
proof -
  have reg: "fst (registerTools ''a_'' [tool_named ''x''] no_tools)
      = toolRegistry registry_of_a_underscore"
    by (simp add: tools_of_a_underscore_registered registry_of_a_underscore_def)
  have owner: "map_option RegisteredTool.serverName
      (registry_getTool ''a____x'' registry_of_a_underscore) = Some ''a_''"
    by (simp add: registry_of_a_underscore_lookup registered_x_of_a_underscore)
  have off: "map_option isConnected (getConnector ''a_'' [(''a'', answering), (''a_'', down)])
      = Some False"
    by (simp add: connectors_a_and_a_underscore)
  have route: "router_routeToolCall registry_of_a_underscore [(''a'', answering), (''a_'', down)]
      ''a____x''
      = Some \<lparr>routeServerName = ''a'', routeOriginalName = ''_x'', routeConnector = answering\<rparr>"
    by (simp add: router_routeToolCall_def removePrefix_a_x registry_of_a_underscore_lookup
        connectors_a_and_a_underscore)
  have sent: "sendMessage answering msg
      = Inr \<lparr>respId = reqId msg, result = Some done_result, error = None\<rparr>" for msg
    by (simp add: sendMessage_def isConnected_def answering_def)
  have forwarded: "router_handleToolCall registry_of_a_underscore
      [(''a'', answering), (''a_'', down)] (call_request ''a____x'')
      = Inr \<lparr>respId = JNum 7, result = Some done_result, error = None\<rparr>"
    by (simp add: router_handleToolCall_def call_request_def route sent upstreamCall_def)
  have none: "removePrefix ''nope___x'' = Some (''nope'', ''x'')"
    by (simp add: removePrefix_def SEPARATOR_def)
  have absent: "router_handleToolCall registry_of_a_underscore
      [(''a'', answering), (''a_'', down)] (call_request ''nope___x'')
      = Inr \<lparr>respId = JNum 7, result = None,
             error = Some \<lparr>code = - 32601,
                           message = ''Tool not found or server unavailable: nope___x''\<rparr>\<rparr>"
    by (simp add: router_handleToolCall_def call_request_def router_routeToolCall_def none
        registry_of_a_underscore_lookup errorResponse_def)
  have server: "server_routeToolCall registry_of_a_underscore
      [(''a'', answering), (''a_'', down)] ''a____x'' = None"
    by (simp add: server_routeToolCall_def registry_of_a_underscore_lookup
        registered_x_of_a_underscore connectors_a_and_a_underscore)
  have hub: "hub_routeToolCall registry_of_a_underscore
      [(''a'', answering), (''a_'', down)] ''a____x'' = None"
    by (simp add: hub_routeToolCall_def registry_of_a_underscore_lookup
        registered_x_of_a_underscore connectors_a_and_a_underscore)
  from reg owner off route forwarded absent server hub show ?thesis by simp
qed
section \<open>A tool call whose send fails\<close>

text \<open>
  \<open>sendMessage\<close> rejects only when the connector has no client or is not connected. A
  connector that a route resolves to is connected, so a request that fails there comes back
  as a resolved error response.
\<close>

lemma sendMessage_rejects_iff:
  "(\<exists>e. sendMessage c msg = Inl e) \<longleftrightarrow> \<not> hasClient c \<or> \<not> isConnected c"
  by (auto simp: sendMessage_def split: sum.splits)

lemma sendMessage_request_fails:
  assumes "hasClient c" and "isConnected c" and "clientRequest c msg = Inl e"
  shows "sendMessage c msg
           = Inr \<lparr>respId = reqId msg, result = None,
                  error = Some \<lparr>code = errorCodeOf e, message = errorMessageOf e\<rparr>\<rparr>"
  using assms by (simp add: sendMessage_def)

lemma routed_connector_connected:
  "server_routeToolCall cr conns n = Some ri \<Longrightarrow> isConnected (routeConnector ri)"
  "router_routeToolCall cr conns n = Some ri \<Longrightarrow> isConnected (routeConnector ri)"
  by (auto simp: server_routeToolCall_def router_routeToolCall_def
      split: option.splits if_splits)

text \<open>
  What the three handlers make of a request that fails at the resolved upstream with \<open>e\<close>:
  \<open>McpHubServer\<close> returns a text content without text and without \<open>isError\<close>,
  \<open>RequestRouter.handleToolCall\<close> returns the error response of the connector, and \<open>McpHub\<close>
  throws an error with the message of \<open>e\<close>.
\<close>

lemma server_callTool_request_fails:
  assumes "CallToolParams.name cp \<noteq> []"
    and "server_routeToolCall cr conns (CallToolParams.name cp) = Some ri"
    and "hasClient (routeConnector ri)"
    and "clientRequest (routeConnector ri)
           (upstreamCall (JStr fresh) (routeOriginalName ri) (CallToolParams.arguments cp))
         = Inl e"
  shows "server_callTool stringify fresh cr conns cp
           = Inr (JObj [(''content'', JArr [JObj [(''type'', JStr ''text'')]])])"
proof -
  from routed_connector_connected(1) [OF assms(2)] have "isConnected (routeConnector ri)" .
  from sendMessage_request_fails [OF assms(3) this assms(4)] assms(1,2)
  show ?thesis by (simp add: server_callTool_def textContent_def)
qed

lemma router_handleToolCall_request_fails:
  assumes "n \<noteq> []" and "params request = Some ps" and "js_prop ps ''name'' = Some (JStr n)"
    and "router_routeToolCall cr conns n = Some ri"
    and "hasClient (routeConnector ri)"
    and "clientRequest (routeConnector ri)
           (upstreamCall (reqId request) (routeOriginalName ri) (js_prop ps ''arguments''))
         = Inl e"
  shows "router_handleToolCall cr conns request
           = Inr \<lparr>respId = reqId request, result = None,
                  error = Some \<lparr>code = errorCodeOf e, message = errorMessageOf e\<rparr>\<rparr>"
proof -
  from routed_connector_connected(2) [OF assms(4)] have "isConnected (routeConnector ri)" .
  from sendMessage_request_fails [OF assms(5) this assms(6)]
  have sent: "sendMessage (routeConnector ri)
      (upstreamCall (reqId request) (routeOriginalName ri) (js_prop ps ''arguments''))
      = Inr \<lparr>respId = reqId request, result = None,
             error = Some \<lparr>code = errorCodeOf e, message = errorMessageOf e\<rparr>\<rparr>"
    by (simp add: upstreamCall_def)
  from assms(2,3) have "ps \<noteq> JNull" by auto
  with assms(1-4) sent show ?thesis
    by (cases ps) (simp_all add: router_handleToolCall_def)
qed

lemma hub_callTool_request_fails:
  assumes "CallToolParams.name cp \<noteq> []"
    and "hub_routeToolCall cr conns (CallToolParams.name cp) = Some (server, original)"
    and "getConnector server conns = Some c" and "hasClient c"
    and "clientRequest c (upstreamCall (JNum now) original (CallToolParams.arguments cp))
         = Inl e"
  shows "hub_callTool now cr conns cp = Inl (Error (errorMessageOf e))"
proof -
  from assms(2,3) have "isConnected c"
    by (auto simp: hub_routeToolCall_def split: option.splits if_splits)
  from sendMessage_request_fails [OF assms(4) this assms(5)] this assms(1,2,3)
  show ?thesis by (simp add: hub_callTool_def routeMessage_def getConnector_def)
qed

lemma timing_out_facts:
  "getConnector ''a'' [(''a'', timing_out)] = Some timing_out" "isConnected timing_out"
  "hasClient timing_out"
  "clientRequest timing_out msg = Inl (McpError (- 32001) ''Request timed out'')"
  by (simp_all add: getConnector_def map_get_def isConnected_def timing_out_def)

lemma routes_to_timing_out:
  "router_routeToolCall registry_of_a [(''a'', timing_out)] ''a____x''
     = Some \<lparr>routeServerName = ''a'', routeOriginalName = ''_x'', routeConnector = timing_out\<rparr>"
  "server_routeToolCall registry_of_a [(''a'', timing_out)] ''a____x''
     = Some \<lparr>routeServerName = ''a'', routeOriginalName = ''_x'', routeConnector = timing_out\<rparr>"
  "hub_routeToolCall registry_of_a [(''a'', timing_out)] ''a____x'' = Some (''a'', ''_x'')"
  by (simp_all add: router_routeToolCall_def server_routeToolCall_def hub_routeToolCall_def
      removePrefix_a_x registry_of_a_lookup timing_out_facts registeredTool_def tool_named_def
      addPrefix_def SEPARATOR_def)

text \<open>
  C4, evaluated where the code departs from it. The tool \<open>a____x\<close> resolves to the connected
  upstream \<open>a\<close>, and the request sent there times out. The connector catches the failure
  and resolves with an error response, so the \<open>catch\<close> block of the \<open>McpHubServer\<close> handler,
  which builds the \<open>isError\<close> result, is not entered: the handler returns
  \<open>{content: [{type: "text"}]}\<close>, with neither \<open>isError\<close> nor the message.
  \<open>RequestRouter.handleToolCall\<close> returns the JSON-RPC error object of the connector, and the
  handler of \<open>McpHub\<close> throws.
\<close>

theorem toolCall_request_failure_not_isError:
  "server_routeToolCall registry_of_a [(''a'', timing_out)] ''a____x''
     = Some \<lparr>routeServerName = ''a'', routeOriginalName = ''_x'', routeConnector = timing_out\<rparr>
   \<and> clientRequest timing_out (upstreamCall (JStr ''0.5'') ''_x'' (Some (JObj [])))
       = Inl (McpError (- 32001) ''Request timed out'')
   \<and> routeMessage [(''a'', timing_out)] ''a'' (upstreamCall (JStr ''0.5'') ''_x'' (Some (JObj [])))
       = Inr \<lparr>respId = JStr ''0.5'', result = None,
              error = Some \<lparr>code = - 32001, message = ''Request timed out''\<rparr>\<rparr>
   \<and> server_callTool stringify ''0.5'' registry_of_a [(''a'', timing_out)] (call_params ''a____x'')
       = Inr (JObj [(''content'', JArr [JObj [(''type'', JStr ''text'')]])])
   \<and> server_callTool stringify ''0.5'' registry_of_a [(''a'', timing_out)] (call_params ''a____x'')
       \<noteq> Inr (JObj [(''isError'', JBool True),
                    (''content'', JArr [JObj [(''type'', JStr ''text''),
                       (''text'', JStr ''Upstream error: Request timed out'')]])])
   \<and> router_handleToolCall registry_of_a [(''a'', timing_out)] (call_request ''a____x'')
       = Inr \<lparr>respId = JNum 7, result = None,
              error = Some \<lparr>code = - 32001, message = ''Request timed out''\<rparr>\<rparr>
   \<and> hub_callTool 0 registry_of_a [(''a'', timing_out)] (call_params ''a____x'')
       = Inl (Error ''Request timed out'')"
proof -
  have cp: "CallToolParams.name (call_params ''a____x'') = ''a____x''"
    "CallToolParams.arguments (call_params ''a____x'') = Some (JObj [])"
    by (simp_all add: call_params_def)
  have req: "params (call_request ''a____x'')
        = Some (JObj [(''name'', JStr ''a____x''), (''arguments'', JObj [])])"
    "reqId (call_request ''a____x'') = JNum 7"
    by (simp_all add: call_request_def)
  have sent: "sendMessage timing_out (upstreamCall (JStr ''0.5'') ''_x'' (Some (JObj [])))
       = Inr \<lparr>respId = JStr ''0.5'', result = None,
              error = Some \<lparr>code = - 32001, message = ''Request timed out''\<rparr>\<rparr>"
    using sendMessage_request_fails [OF timing_out_facts(3) timing_out_facts(2)
        timing_out_facts(4), of "upstreamCall (JStr ''0.5'') ''_x'' (Some (JObj []))"]
    by (simp add: upstreamCall_def)
  have server: "server_callTool stringify ''0.5'' registry_of_a [(''a'', timing_out)]
      (call_params ''a____x'') = Inr (JObj [(''content'', JArr [JObj [(''type'', JStr ''text'')]])])"
    using server_callTool_request_fails [of "call_params ''a____x''" registry_of_a
        "[(''a'', timing_out)]"
        "\<lparr>routeServerName = ''a'', routeOriginalName = ''_x'', routeConnector = timing_out\<rparr>"
        "''0.5''" "McpError (- 32001) ''Request timed out''" stringify]
    by (simp add: cp routes_to_timing_out timing_out_facts)
  have router: "router_handleToolCall registry_of_a [(''a'', timing_out)] (call_request ''a____x'')
       = Inr \<lparr>respId = JNum 7, result = None,
              error = Some \<lparr>code = - 32001, message = ''Request timed out''\<rparr>\<rparr>"
    using router_handleToolCall_request_fails [of "''a____x''" "call_request ''a____x''"
        "JObj [(''name'', JStr ''a____x''), (''arguments'', JObj [])]" registry_of_a
        "[(''a'', timing_out)]"
        "\<lparr>routeServerName = ''a'', routeOriginalName = ''_x'', routeConnector = timing_out\<rparr>"
        "McpError (- 32001) ''Request timed out''"]
    by (simp add: req routes_to_timing_out timing_out_facts)
  have hub: "hub_callTool 0 registry_of_a [(''a'', timing_out)] (call_params ''a____x'')
       = Inl (Error ''Request timed out'')"
    using hub_callTool_request_fails [of "call_params ''a____x''" registry_of_a
        "[(''a'', timing_out)]" "''a''" "''_x''" timing_out 0
        "McpError (- 32001) ''Request timed out''"]
    by (simp add: cp routes_to_timing_out timing_out_facts)
  from sent have routed: "routeMessage [(''a'', timing_out)] ''a''
      (upstreamCall (JStr ''0.5'') ''_x'' (Some (JObj [])))
       = Inr \<lparr>respId = JStr ''0.5'', result = None,
              error = Some \<lparr>code = - 32001, message = ''Request timed out''\<rparr>\<rparr>"
    by (simp add: routeMessage_def map_get_def timing_out_facts(2))
  from routed server router hub show ?thesis
    by (simp add: routes_to_timing_out timing_out_facts)
qed
section \<open>Sessions\<close>

lemma map_get_map_set: "map_get k (map_set k v m) = Some v"
  by (simp add: map_get_def map_of_map_set)

lemma startSession_creates:
  assumes "connectResolves env"
  shows "map_get (randomId env) (fst (startSession env table req))
           = Some \<lparr>boundSessionId = randomId env, lastActivity = clock env\<rparr>
         \<and> responseHeaders (snd (startSession env table req))
           = [(''mcp-session-id'', randomId env)]
         \<and> body (snd (startSession env table req))
           \<noteq> JsonRpcError (- 32602) (''Invalid session ID: '' @ randomId env)"
  using assms
  by (auto simp: startSession_def dispatch_def map_get_map_set Let_def internalServerError_def
      split: sum.split)





text \<open>
  C6, evaluated where the code departs from it. An \<open>initialize\<close> request that carries the id
  of an existing session does not start a new session: \<open>isInitializeRequest\<close> is false as
  soon as the header is present, the request is passed to the transport of the session
  \<open>abc\<close>, the table keeps its single entry, and no \<open>mcp-session-id\<close> header is set.
\<close>

theorem initialize_with_existing_id_reuses_session:
  "bodyMethod initialize_with_id = ''initialize''
   \<and> map_get ''abc'' one_session \<noteq> None
   \<and> \<not> isInitializeRequest initialize_with_id
   \<and> handleMcp some_env one_session initialize_with_id
       = ([(''abc'', \<lparr>boundSessionId = ''abc'', lastActivity = 5000\<rparr>)],
          \<lparr>statusCode = 200, responseHeaders = [], body = TransportReply ''abc''\<rparr>)"
  by (simp add: handleMcp_def isInitializeRequest_def dispatch_def initialize_with_id_def
      one_session_def some_env_def map_get_def Let_def)

text \<open>
  The first half of C6 holds: a request without a session id (an \<open>initialize\<close> request among
  them) starts a new session and returns its id in the \<open>mcp-session-id\<close> header.
\<close>

lemma request_without_id_starts_session:
  assumes "sessionHeader req = None" and "connectResolves env"
  shows "map_get (randomId env) (fst (handleMcp env table req))
           = Some \<lparr>boundSessionId = randomId env, lastActivity = clock env\<rparr>
         \<and> responseHeaders (snd (handleMcp env table req)) = [(''mcp-session-id'', randomId env)]"
  using assms startSession_creates [of env table req] by (simp add: handleMcp_def)

section \<open>Discovery with a failing category\<close>


lemma collectSettled_rejected:
  "fst (collectSettled (Rejected e) (Fulfilled rs) (Fulfilled ps)) = ([], rs, ps)"
  "fst (collectSettled (Fulfilled ts) (Rejected e) (Fulfilled ps)) = (ts, [], ps)"
  "fst (collectSettled (Fulfilled ts) (Fulfilled rs) (Rejected e)) = (ts, rs, [])"
  by (simp_all add: collectSettled_def valueOr_def Let_def)

section \<open>Reconnect timers\<close>

lemma swapped_mem: "(h, n) \<in> (\<lambda>e. (snd e, fst e)) ` S \<longleftrightarrow> (n, h) \<in> S"
  by force

lemma timers_recorded_fields:
  assumes "timers m' = timers m" and "reconnectTimeouts m' = reconnectTimeouts m"
    and "nextTimer m' = nextTimer m"
  shows "timers_recorded m' = timers_recorded m"
  by (simp add: timers_recorded_def assms)

lemma status_updates_keep_timers:
  "timers (updateConnectionStatus nm st err m) = timers m"
  "reconnectTimeouts (updateConnectionStatus nm st err m) = reconnectTimeouts m"
  "nextTimer (updateConnectionStatus nm st err m) = nextTimer m"
  "timers (setConnectorStatus nm st m) = timers m"
  "reconnectTimeouts (setConnectorStatus nm st m) = reconnectTimeouts m"
  "nextTimer (setConnectorStatus nm st m) = nextTimer m"
  by (simp_all add: updateConnectionStatus_def setConnectorStatus_def split: option.split)

lemma timers_recorded_status [simp]:
  "timers_recorded (updateConnectionStatus nm st err m) = timers_recorded m"
  "timers_recorded (setConnectorStatus nm st m) = timers_recorded m"
  by (rule timers_recorded_fields; simp add: status_updates_keep_timers)+

lemma timers_recorded_schedule:
  assumes "timers_recorded m"
  shows "timers_recorded (scheduleReconnection nm m)"
proof (cases "map_has nm (reconnectTimeouts m)")
  case True
  with assms show ?thesis by (simp add: scheduleReconnection_def)
next
  case False
  then have new: "nm \<notin> fst ` set (reconnectTimeouts m)" by (simp add: map_has_def)
  from assms have d1: "distinct (map fst (timers m))"
    and d2: "distinct (map fst (reconnectTimeouts m))"
    and eq: "set (timers m) = (\<lambda>e. (snd e, fst e)) ` set (reconnectTimeouts m)"
    and bound: "\<forall>t \<in> set (timers m). fst t < nextTimer m"
    by (simp_all add: timers_recorded_def)
  from bound have fresh: "nextTimer m \<notin> fst ` set (timers m)" by auto
  let ?m = "m\<lparr>timers := timers m @ [(nextTimer m, nm)],
             reconnectTimeouts := reconnectTimeouts m @ [(nm, nextTimer m)],
             nextTimer := Suc (nextTimer m),
             managerLog := managerLog m @ [ScheduledReconnection nm]\<rparr>"
  have run: "scheduleReconnection nm m = ?m"
    using False new by (simp add: scheduleReconnection_def map_set_new)
  have "distinct (map fst (timers ?m))" using d1 fresh by simp
  moreover have "distinct (map fst (reconnectTimeouts ?m))" using d2 new by simp
  moreover have "set (timers ?m) = (\<lambda>e. (snd e, fst e)) ` set (reconnectTimeouts ?m)"
    using eq by simp
  moreover have "\<forall>t \<in> set (timers ?m). fst t < nextTimer ?m"
    using bound by (auto simp: less_Suc_eq)
  ultimately have "timers_recorded ?m" unfolding timers_recorded_def by blast
  with run show ?thesis by simp
qed

lemma timers_recorded_unrecord:
  assumes "timers_recorded m" and "(h, nm) \<in> set (timers m)"
  shows "timers_recorded (m\<lparr>timers := filter (\<lambda>t. fst t \<noteq> h) (timers m),
                            reconnectTimeouts := map_delete nm (reconnectTimeouts m)\<rparr>)"
proof -
  from assms have d1: "distinct (map fst (timers m))"
    and d2: "distinct (map fst (reconnectTimeouts m))"
    and eq: "set (timers m) = (\<lambda>e. (snd e, fst e)) ` set (reconnectTimeouts m)"
    and bound: "\<forall>t \<in> set (timers m). fst t < nextTimer m"
    by (simp_all add: timers_recorded_def)
  have only_t: "t \<in> set (timers m) \<Longrightarrow> fst t = h \<longleftrightarrow> t = (h, nm)" for t
    using d1 assms(2) by (metis eq_key_imp_eq_value fst_conv prod.collapse)
  have only_e: "e \<in> set (reconnectTimeouts m) \<Longrightarrow> fst e = nm \<longleftrightarrow> e = (nm, h)" for e
  proof -
    assume e: "e \<in> set (reconnectTimeouts m)"
    from assms(2) eq have "(nm, h) \<in> set (reconnectTimeouts m)" by auto
    with d2 e show ?thesis by (metis eq_key_imp_eq_value fst_conv prod.collapse)
  qed
  have "set (filter (\<lambda>t. fst t \<noteq> h) (timers m))
      = (\<lambda>e. (snd e, fst e)) ` set (filter (\<lambda>e. fst e \<noteq> nm) (reconnectTimeouts m))"
  proof (intro set_eqI iffI)
    fix t assume "t \<in> set (filter (\<lambda>t. fst t \<noteq> h) (timers m))"
    then have t: "t \<in> set (timers m)" "t \<noteq> (h, nm)" using only_t by auto
    with eq obtain e where e: "e \<in> set (reconnectTimeouts m)" "t = (snd e, fst e)" by auto
    with t have "e \<noteq> (nm, h)" by auto
    with e only_e show "t \<in> (\<lambda>e. (snd e, fst e)) ` set (filter (\<lambda>e. fst e \<noteq> nm) (reconnectTimeouts m))"
      by auto
  next
    fix t assume "t \<in> (\<lambda>e. (snd e, fst e)) ` set (filter (\<lambda>e. fst e \<noteq> nm) (reconnectTimeouts m))"
    then obtain e where e: "e \<in> set (reconnectTimeouts m)" "fst e \<noteq> nm" "t = (snd e, fst e)"
      by auto
    then have "t \<in> set (timers m)" using eq by auto
    moreover have "t \<noteq> (h, nm)" using e by auto
    ultimately show "t \<in> set (filter (\<lambda>t. fst t \<noteq> h) (timers m))" using only_t by auto
  qed
  note sets = this
  let ?m = "m\<lparr>timers := filter (\<lambda>t. fst t \<noteq> h) (timers m),
             reconnectTimeouts := map_delete nm (reconnectTimeouts m)\<rparr>"
  have "distinct (map fst (timers ?m))" using d1 by (simp add: distinct_map_filter)
  moreover have "distinct (map fst (reconnectTimeouts ?m))"
    using d2 by (simp add: map_delete_def distinct_map_filter)
  moreover have "set (timers ?m) = (\<lambda>e. (snd e, fst e)) ` set (reconnectTimeouts ?m)"
    using sets by (simp only: map_delete_def) simp
  moreover have "\<forall>t \<in> set (timers ?m). fst t < nextTimer ?m" using bound by simp
  ultimately show ?thesis unfolding timers_recorded_def by blast
qed

lemma timers_recorded_cancel:
  assumes "timers_recorded m"
  shows "timers_recorded (cancelReconnection nm m)"
proof (cases "map_get nm (reconnectTimeouts m)")
  case None
  with assms show ?thesis by (simp add: cancelReconnection_def)
next
  case (Some h)
  then have "(nm, h) \<in> set (reconnectTimeouts m)" by (simp add: map_get_def map_of_SomeD)
  with assms have "(h, nm) \<in> set (timers m)" by (force simp: timers_recorded_def)
  from timers_recorded_unrecord [OF assms this] Some show ?thesis
    by (simp add: cancelReconnection_def clearTimeout_def)
qed

lemma connectServer_keeps_timers:
  assumes "connectServer nm m = Inr m'"
  shows "timers m' = timers m \<and> reconnectTimeouts m' = reconnectTimeouts m
      \<and> nextTimer m' = nextTimer m"
proof (cases "map_get nm (connectors m)")
  case None
  with assms show ?thesis by (simp add: connectServer_def)
next
  case (Some c)
  note c = this
  show ?thesis
  proof (cases "map_get nm (connections m)")
    case None
    with assms c show ?thesis by (simp add: connectServer_def)
  next
    case (Some conn)
    show ?thesis
    proof (cases "isConnected c")
      case True
      with assms c Some show ?thesis by (simp add: connectServer_def)
    next
      case False
      with assms c Some have "m' = (setConnectorStatus nm connecting
                            (updateConnectionStatus nm connecting None m))
                          \<lparr>managerLog := managerLog m @ [ConnectCalled nm]\<rparr>"
        by (simp add: connectServer_def)
      then show ?thesis by (simp add: status_updates_keep_timers)
    qed
  qed
qed

lemma timers_recorded_connectServer:
  assumes "timers_recorded m" and "connectServer nm m = Inr m'"
  shows "timers_recorded m'"
  using connectServer_keeps_timers [OF assms(2)] assms(1) by (simp add: timers_recorded_def)

lemma timers_recorded_timerFires:
  assumes "timers_recorded m"
  shows "timers_recorded (timerFires h m)"
proof (cases "map_of (timers m) h")
  case None
  with assms show ?thesis by (simp add: timerFires_def)
next
  case (Some nm)
  then have "(h, nm) \<in> set (timers m)" by (rule map_of_SomeD)
  from timers_recorded_unrecord [OF assms this]
  have base: "timers_recorded ((clearTimeout h m)
      \<lparr>reconnectTimeouts := map_delete nm (reconnectTimeouts (clearTimeout h m))\<rparr>)"
    by (simp add: clearTimeout_def)
  let ?m1 = "(clearTimeout h m)
      \<lparr>reconnectTimeouts := map_delete nm (reconnectTimeouts (clearTimeout h m))\<rparr>"
  have "timers_recorded (reconnectCallback nm (clearTimeout h m))"
  proof (cases "connectServer nm ?m1")
    case (Inl e)
    with base show ?thesis
      by (simp add: reconnectCallback_def Let_def timers_recorded_def)
  next
    case (Inr m2)
    from timers_recorded_connectServer [OF base Inr] base Inr show ?thesis
      by (simp add: reconnectCallback_def Let_def timers_recorded_def)
  qed
  with Some show ?thesis by (simp add: timerFires_def)
qed

lemma timers_recorded_disconnectConnector:
  assumes "timers_recorded m" and "disconnectConnector closes nm c m = Inr m'"
  shows "timers_recorded m'"
  using assms
  by (auto simp: disconnectConnector_def onDisconnected_def timers_recorded_schedule
      split: if_splits)

lemma timers_recorded_removeServer:
  assumes "timers_recorded m"
  shows "timers_recorded (fst (removeServer closes nm m))"
proof (cases "map_get nm (connectors m)")
  case None
  with assms show ?thesis by (simp add: removeServer_def)
next
  case (Some c)
  note inv1 = timers_recorded_cancel [OF assms, of nm]
  show ?thesis
  proof (cases "disconnectConnector closes nm c (cancelReconnection nm m)")
    case (Inl e)
    with Some inv1 show ?thesis by (simp add: removeServer_def)
  next
    case (Inr m2)
    from timers_recorded_disconnectConnector [OF inv1 Inr]
    have "timers_recorded (m2\<lparr>connectors := map_delete nm (connectors m2),
                              connections := map_delete nm (connections m2)\<rparr>)"
      by (simp add: timers_recorded_def)
    with Some Inr show ?thesis by (simp add: removeServer_def)
  qed
qed

lemma timers_recorded_disconnectServer:
  assumes "timers_recorded m"
  shows "timers_recorded (fst (disconnectServer closes nm m))"
proof (cases "map_get nm (connectors m)")
  case None
  with assms show ?thesis by (simp add: disconnectServer_def)
next
  case (Some c)
  note inv1 = timers_recorded_cancel [OF assms, of nm]
  show ?thesis
  proof (cases "disconnectConnector closes nm c (cancelReconnection nm m)")
    case (Inl e)
    with Some inv1 show ?thesis by (simp add: disconnectServer_def)
  next
    case (Inr m2)
    from timers_recorded_disconnectConnector [OF inv1 Inr] Some Inr show ?thesis
      by (simp add: disconnectServer_def)
  qed
qed

lemma fold_clearTimeout:
  "timers (fold (\<lambda>e. clearTimeout (snd e)) es m) = filter (\<lambda>t. fst t \<notin> snd ` set es) (timers m)
   \<and> nextTimer (fold (\<lambda>e. clearTimeout (snd e)) es m) = nextTimer m"
proof (induction es arbitrary: m)
  case Nil
  show ?case by simp
next
  case (Cons e es)
  have step: "timers (clearTimeout (snd e) m) = filter (\<lambda>t. fst t \<noteq> snd e) (timers m)"
    "nextTimer (clearTimeout (snd e) m) = nextTimer m"
    by (simp_all add: clearTimeout_def)
  have "fold (\<lambda>e. clearTimeout (snd e)) (e # es) m
      = fold (\<lambda>e. clearTimeout (snd e)) es (clearTimeout (snd e) m)"
    by simp
  then show ?case
    by (simp only: Cons.IH step) (simp add: conj_commute)
qed

lemma timers_recorded_clearAllTimers:
  assumes "timers_recorded m"
  shows "timers_recorded (clearAllTimers m)"
proof -
  from assms have "\<forall>t \<in> set (timers m). fst t \<in> snd ` set (reconnectTimeouts m)"
    by (force simp: timers_recorded_def)
  then have "filter (\<lambda>t. fst t \<notin> snd ` set (reconnectTimeouts m)) (timers m) = []"
    by (auto simp: filter_empty_conv)
  then show ?thesis
    by (simp add: clearAllTimers_def timers_recorded_def fold_clearTimeout)
qed

lemma reachable_timers_recorded: "reachable m \<Longrightarrow> timers_recorded m"
proof (induction rule: reachable.induct)
  case start
  show ?case by (simp add: timers_recorded_def newManager_def)
next
  case (added m nm c m')
  from added.hyps(2) have "timers m' = timers m \<and> reconnectTimeouts m' = reconnectTimeouts m
      \<and> nextTimer m' = nextTimer m"
    by (auto simp: addServer_def split: if_splits)
  with added.IH show ?case by (simp add: timers_recorded_def)
next
  case (connect_called m nm m')
  then show ?case by (blast intro: timers_recorded_connectServer)
qed (simp_all add: timers_recorded_removeServer timers_recorded_disconnectServer
      onDisconnected_def onError_def connectFailed_def timers_recorded_schedule
      timers_recorded_timerFires timers_recorded_clearAllTimers)

lemma pending_at_most_one:
  assumes "timers_recorded m"
  shows "length (pendingReconnects nm m) \<le> 1"
    and "pendingReconnects nm m \<noteq> [] \<longleftrightarrow> map_has nm (reconnectTimeouts m)"
proof -
  from assms have d1: "distinct (map fst (timers m))"
    and d2: "distinct (map fst (reconnectTimeouts m))"
    and eq: "set (timers m) = (\<lambda>e. (snd e, fst e)) ` set (reconnectTimeouts m)"
    by (simp_all add: timers_recorded_def)
  have dist: "distinct (pendingReconnects nm m)"
    using d1 by (simp add: pendingReconnects_def distinct_map_filter)
  have same: "h \<in> set (pendingReconnects nm m) \<Longrightarrow> h' \<in> set (pendingReconnects nm m) \<Longrightarrow> h = h'"
    for h h'
  proof -
    assume "h \<in> set (pendingReconnects nm m)" "h' \<in> set (pendingReconnects nm m)"
    then have "(h, nm) \<in> set (timers m)" "(h', nm) \<in> set (timers m)"
      by (auto simp: pendingReconnects_def)
    with eq have "(nm, h) \<in> set (reconnectTimeouts m)" "(nm, h') \<in> set (reconnectTimeouts m)"
      by auto
    with d2 show "h = h'" by (rule eq_key_imp_eq_value)
  qed
  show "length (pendingReconnects nm m) \<le> 1"
  proof (cases "pendingReconnects nm m")
    case Nil
    then show ?thesis by simp
  next
    case (Cons h hs)
    note first = this
    show ?thesis
    proof (cases hs)
      case Nil
      with first show ?thesis by simp
    next
      case (Cons h' hs')
      with first dist same [of h h'] show ?thesis by auto
    qed
  qed
  have "pendingReconnects nm m \<noteq> [] \<longleftrightarrow> (\<exists>h. (h, nm) \<in> set (timers m))"
    by (force simp: pendingReconnects_def filter_empty_conv)
  also have "\<dots> \<longleftrightarrow> (\<exists>h. (nm, h) \<in> set (reconnectTimeouts m))"
    by (simp add: eq swapped_mem)
  also have "\<dots> \<longleftrightarrow> map_has nm (reconnectTimeouts m)" by (force simp: map_has_def)
  finally show "pendingReconnects nm m \<noteq> [] \<longleftrightarrow> map_has nm (reconnectTimeouts m)" .
qed

text \<open>
  C8. In every state the manager can reach, at most one reconnect timer is pending for an
  upstream, and scheduling a reconnection while one is pending changes nothing. When a
  timer fires for an upstream that is no longer in the manager's tables, the callback
  forgets the handle, logs that the reconnection is skipped and does nothing else: no
  connect is called.
\<close>

theorem reconnect_timer_single:
  assumes "reachable m"
  shows "length (pendingReconnects nm m) \<le> 1
    \<and> (pendingReconnects nm m \<noteq> [] \<longrightarrow> scheduleReconnection nm m = m)
    \<and> (map_of (timers m) h = Some nm
        \<and> (\<not> map_has nm (connectors m) \<or> \<not> map_has nm (connections m))
        \<longrightarrow> timerFires h m
              = (clearTimeout h m)\<lparr>reconnectTimeouts := map_delete nm (reconnectTimeouts m),
                                    managerLog := managerLog m @ [SkippedReconnection nm]\<rparr>)"
proof -
  from assms have inv: "timers_recorded m" by (rule reachable_timers_recorded)
  have one: "length (pendingReconnects nm m) \<le> 1" by (rule pending_at_most_one(1) [OF inv])
  have noop: "pendingReconnects nm m \<noteq> [] \<longrightarrow> scheduleReconnection nm m = m"
    using pending_at_most_one(2) [OF inv, of nm] by (simp add: scheduleReconnection_def)
  have skip: "map_of (timers m) h = Some nm
        \<and> (\<not> map_has nm (connectors m) \<or> \<not> map_has nm (connections m))
        \<longrightarrow> timerFires h m
              = (clearTimeout h m)\<lparr>reconnectTimeouts := map_delete nm (reconnectTimeouts m),
                                    managerLog := managerLog m @ [SkippedReconnection nm]\<rparr>"
    by (auto simp: timerFires_def reconnectCallback_def clearTimeout_def Let_def)
  from one noop skip show ?thesis by blast
qed

lemma after_removal_reachable: "reachable after_removal"
proof -
  have add: "addServer ''a'' answering newManager = Inr with_a"
    by (simp add: addServer_def newManager_def with_a_def map_has_def)
  have rem: "fst (removeServer True ''a'' with_a) = after_removal"
    by (simp add: removeServer_def with_a_def after_removal_def map_get_def
        cancelReconnection_def disconnectConnector_def answering_def onDisconnected_def
        setConnectorStatus_def updateConnectionStatus_def scheduleReconnection_def
        map_has_def map_delete_def Let_def)
  from reachable.added [OF reachable.start add] have "reachable with_a" .
  from reachable.removed [OF this, of True "''a''"] rem show ?thesis by simp
qed

theorem reconnect_timer_single_witness:
  "reachable after_removal
   \<and> length (pendingReconnects ''a'' after_removal) \<le> 1
   \<and> pendingReconnects ''a'' after_removal \<noteq> []
   \<and> scheduleReconnection ''a'' after_removal = after_removal
   \<and> map_of (timers after_removal) 0 = Some ''a''
   \<and> \<not> map_has ''a'' (connectors after_removal)
   \<and> timerFires 0 after_removal
       = \<lparr>connectors = [], connections = [], reconnectTimeouts = [], timers = [],
          nextTimer = 1,
          managerLog = [ScheduledReconnection ''a'', SkippedReconnection ''a'']\<rparr>"
proof -
  note t = reconnect_timer_single [OF after_removal_reachable, of "''a''" 0]
  have p: "pendingReconnects ''a'' after_removal \<noteq> []"
    by (simp add: pendingReconnects_def after_removal_def)
  have h: "map_of (timers after_removal) 0 = Some ''a''"
    "\<not> map_has ''a'' (connectors after_removal)"
    by (simp_all add: after_removal_def map_has_def)
  from t p have s: "scheduleReconnection ''a'' after_removal = after_removal" by blast
  from t h have "timerFires 0 after_removal
      = (clearTimeout 0 after_removal)
          \<lparr>reconnectTimeouts := map_delete ''a'' (reconnectTimeouts after_removal),
           managerLog := managerLog after_removal @ [SkippedReconnection ''a'']\<rparr>"
    by blast
  then have f: "timerFires 0 after_removal
       = \<lparr>connectors = [], connections = [], reconnectTimeouts = [], timers = [],
          nextTimer = 1,
          managerLog = [ScheduledReconnection ''a'', SkippedReconnection ''a'']\<rparr>"
    by (simp add: after_removal_def clearTimeout_def map_delete_def)
  from t have one: "length (pendingReconnects ''a'' after_removal) \<le> 1" by blast
  from after_removal_reachable one p s h f show ?thesis by blast
qed

end
